theory Spec2Isabelle
  imports Complex_Main
begin

unbundle bit_operations_syntax

section \<open>JavaScript values used by the bitfield classes\<close>

text \<open>
  The two classes of the source, \<open>BitField\<close> and \<open>PermissionsBitField\<close>, are written in
  JavaScript.  A bitfield is a JavaScript \<open>number\<close> (class \<open>BitField\<close>, whose
  \<open>DefaultBit\<close> is \<open>0\<close>) or a \<open>bigint\<close> (class \<open>PermissionsBitField\<close>, whose
  \<open>DefaultBit\<close> is \<open>BigInt(0)\<close>).  The language operations the methods use
  (\<open>typeof\<close>, \<open>>=\<close>, \<open>===\<close>, \<open>&\<close>, \<open>|\<close>, \<open>~\<close>, \<open>isNaN\<close>, \<open>Number\<close>, \<open>BigInt\<close>,
  \<open>toString\<close>, property lookup, \<open>Object.keys\<close>) are modelled after ECMAScript.
\<close>

subsection \<open>Numbers\<close>

text \<open>
  A \<open>number\<close> is an IEEE double: not-a-number, the two infinities, negative zero, or a
  finite value, kept as the rational it denotes (\<open>Finite 0\<close> is \<open>+0\<close>).
\<close>

datatype jsnum = NaN | PosInfinity | NegInfinity | NegZero | Finite rat

text \<open>\<open>ToInt32\<close>: truncate towards zero, wrap modulo \<open>2^32\<close>, read as a signed 32-bit integer.\<close>

definition ToInt32 :: "jsnum \<Rightarrow> int" where
  "ToInt32 x = (case x of
      Finite q \<Rightarrow>
        (let t = (if q < 0 then \<lceil>q\<rceil> else \<lfloor>q\<rfloor>); m = t mod 2 ^ 32
         in if 2 ^ 31 \<le> m then m - 2 ^ 32 else m)
    | _ \<Rightarrow> 0)"

text \<open>The value a number has in a comparison (both zeros are \<open>0\<close>).\<close>

definition is_finite :: "jsnum \<Rightarrow> bool" where
  "is_finite x = (case x of Finite q \<Rightarrow> True | NegZero \<Rightarrow> True | _ \<Rightarrow> False)"

definition mv :: "jsnum \<Rightarrow> rat" where
  "mv x = (case x of Finite q \<Rightarrow> q | _ \<Rightarrow> 0)"

text \<open>\<open>a >= b\<close> on numbers: false as soon as one side is \<open>NaN\<close>.\<close>

definition jsnum_ge :: "jsnum \<Rightarrow> jsnum \<Rightarrow> bool" where
  "jsnum_ge a b =
     (a \<noteq> NaN \<and> b \<noteq> NaN \<and>
      (a = PosInfinity \<or> b = NegInfinity \<or> (is_finite a \<and> is_finite b \<and> mv b \<le> mv a)))"

text \<open>\<open>a === b\<close> on numbers: \<open>NaN\<close> equals nothing, \<open>-0 === +0\<close>.\<close>

definition jsnum_eq :: "jsnum \<Rightarrow> jsnum \<Rightarrow> bool" where
  "jsnum_eq a b =
     (a \<noteq> NaN \<and> b \<noteq> NaN \<and> (a = b \<or> (is_finite a \<and> is_finite b \<and> mv a = mv b)))"

text \<open>
  Rounding a non-negative rational to the nearest double (ties to even), with the sign
  given apart so that a negative literal that rounds to zero gives \<open>-0\<close>.
\<close>

fun bitlen :: "nat \<Rightarrow> nat" where
  "bitlen n = (if n = 0 then 0 else Suc (bitlen (n div 2)))"

declare bitlen.simps [simp del]

definition pow2 :: "int \<Rightarrow> rat" where
  "pow2 k = (if 0 \<le> k then 2 ^ nat k else 1 / 2 ^ nat (- k))"

definition pow10 :: "int \<Rightarrow> rat" where
  "pow10 k = (if 0 \<le> k then 10 ^ nat k else 1 / 10 ^ nat (- k))"

definition floor_log2 :: "rat \<Rightarrow> int" where
  "floor_log2 q =
     (let (a, b) = quotient_of q;
          e0 = int (bitlen (nat a)) - int (bitlen (nat b))
      in if pow2 e0 \<le> q then e0 else e0 - 1)"

definition round_half_even :: "rat \<Rightarrow> int" where
  "round_half_even q =
     (let f = \<lfloor>q\<rfloor>; d = q - of_int f
      in if d < 1 / 2 then f else if 1 / 2 < d then f + 1 else if even f then f else f + 1)"

definition RoundMV :: "bool \<Rightarrow> rat \<Rightarrow> jsnum" where
  "RoundMV neg m =
     (let zero = (if neg then NegZero else Finite 0) in
      if m = 0 then zero
      else
        let e = max (floor_log2 m) (- 1022);
            ulp = pow2 (e - 52);
            r = of_int (round_half_even (m / ulp)) * ulp
        in if pow2 1024 \<le> r then (if neg then NegInfinity else PosInfinity)
           else if r = 0 then zero
           else Finite (if neg then - r else r))"

subsection \<open>Strings as numeric literals\<close>

text \<open>
  A string is a list of characters (code units below 256).  \<open>StringToNumber\<close> and
  \<open>StringToBigInt\<close> follow the grammars \<open>StringNumericLiteral\<close> and
  \<open>StringIntegerLiteral\<close> of ECMAScript: white space is trimmed on both sides, the empty
  string is zero, a literal is binary, octal or hexadecimal (no sign allowed), or decimal
  with an optional sign; only a number may have a fraction, an exponent or be \<open>Infinity\<close>.
\<close>

definition is_ws :: "char \<Rightarrow> bool" where
  "is_ws c = (c \<in> set [CHR 0x09, CHR 0x0A, CHR 0x0B, CHR 0x0C, CHR 0x0D, CHR 0x20, CHR 0xA0])"

definition trim :: "string \<Rightarrow> string" where
  "trim s = rev (dropWhile is_ws (rev (dropWhile is_ws s)))"

definition is_digit :: "char \<Rightarrow> bool" where
  "is_digit c = (48 \<le> (of_char c :: nat) \<and> (of_char c :: nat) \<le> 57)"

text \<open>The value of a digit in a radix up to 16; \<open>None\<close> for any other character.\<close>

definition digit_of :: "char \<Rightarrow> nat option" where
  "digit_of c =
     (let n = (of_char c :: nat) in
      if 48 \<le> n \<and> n \<le> 57 then Some (n - 48)
      else if 97 \<le> n \<and> n \<le> 102 then Some (n - 87)
      else if 65 \<le> n \<and> n \<le> 70 then Some (n - 55)
      else None)"

definition is_radix_digit :: "nat \<Rightarrow> char \<Rightarrow> bool" where
  "is_radix_digit b c = (case digit_of c of None \<Rightarrow> False | Some d \<Rightarrow> d < b)"

definition radix_val :: "nat \<Rightarrow> string \<Rightarrow> nat" where
  "radix_val b s = foldl (\<lambda>a c. a * b + (case digit_of c of None \<Rightarrow> 0 | Some d \<Rightarrow> d)) 0 s"

definition radix_literal :: "nat \<Rightarrow> string \<Rightarrow> nat option" where
  "radix_literal b ds = (if ds \<noteq> [] \<and> list_all (is_radix_digit b) ds then Some (radix_val b ds) else None)"

text \<open>\<open>NonDecimalIntegerLiteral\<close>: \<open>0b\<close>, \<open>0o\<close> or \<open>0x\<close> (either case) and at least one digit.\<close>

definition nondecimal_literal :: "string \<Rightarrow> nat option" where
  "nondecimal_literal s =
     (case s of
        z # x # ds \<Rightarrow>
          if z \<noteq> CHR ''0'' then None
          else if x = CHR ''b'' \<or> x = CHR ''B'' then radix_literal 2 ds
          else if x = CHR ''o'' \<or> x = CHR ''O'' then radix_literal 8 ds
          else if x = CHR ''x'' \<or> x = CHR ''X'' then radix_literal 16 ds
          else None
      | _ \<Rightarrow> None)"

definition strip_sign :: "string \<Rightarrow> bool \<times> string" where
  "strip_sign s =
     (case s of
        c # r \<Rightarrow> if c = CHR ''-'' then (True, r) else if c = CHR ''+'' then (False, r) else (False, s)
      | [] \<Rightarrow> (False, s))"

text \<open>\<open>ExponentPart\<close>, or nothing: \<open>e\<close> or \<open>E\<close>, an optional sign, at least one digit.\<close>

definition exponent_part :: "string \<Rightarrow> int option" where
  "exponent_part s =
     (case s of
        [] \<Rightarrow> Some 0
      | c # r \<Rightarrow>
          if c = CHR ''e'' \<or> c = CHR ''E'' then
            (let (neg, ds) = strip_sign r in
             if ds \<noteq> [] \<and> list_all is_digit ds
             then Some (if neg then - int (radix_val 10 ds) else int (radix_val 10 ds))
             else None)
          else None)"

text \<open>
  \<open>StrUnsignedDecimalLiteral\<close> without \<open>Infinity\<close>: digits, an optional point and
  digits, an optional exponent; at least one digit before the exponent.
\<close>

definition unsigned_decimal :: "string \<Rightarrow> rat option" where
  "unsigned_decimal s =
     (let ip = takeWhile is_digit s; r1 = dropWhile is_digit s;
          (fp, r2) = (case r1 of
                        c # t \<Rightarrow> if c = CHR ''.'' then (takeWhile is_digit t, dropWhile is_digit t)
                                 else ([], r1)
                      | [] \<Rightarrow> ([], r1))
      in if ip = [] \<and> fp = [] then None
         else (case exponent_part r2 of
                 None \<Rightarrow> None
               | Some e \<Rightarrow> Some (of_nat (radix_val 10 (ip @ fp)) * pow10 (e - int (length fp)))))"

definition StringToNumber :: "string \<Rightarrow> jsnum" where
  "StringToNumber s =
     (let t = trim s in
      if t = [] then Finite 0
      else (case nondecimal_literal t of
              Some n \<Rightarrow> RoundMV False (of_nat n)
            | None \<Rightarrow>
                (let (neg, u) = strip_sign t in
                 if u = ''Infinity'' then (if neg then NegInfinity else PosInfinity)
                 else (case unsigned_decimal u of
                         None \<Rightarrow> NaN
                       | Some m \<Rightarrow> RoundMV neg m))))"

definition StringToBigInt :: "string \<Rightarrow> int option" where
  "StringToBigInt s =
     (let t = trim s in
      if t = [] then Some 0
      else (case nondecimal_literal t of
              Some n \<Rightarrow> Some (int n)
            | None \<Rightarrow>
                (let (neg, u) = strip_sign t in
                 if u \<noteq> [] \<and> list_all is_digit u
                 then Some (if neg then - int (radix_val 10 u) else int (radix_val 10 u))
                 else None)))"

text \<open>The global \<open>isNaN\<close>, applied to a string: its conversion to a number is \<open>NaN\<close>.\<close>

definition isNaN :: "string \<Rightarrow> bool" where
  "isNaN s = (StringToNumber s = NaN)"

text \<open>The decimal digits of a natural number, and \<open>BigInt.prototype.toString\<close>.\<close>

definition digit_char :: "nat \<Rightarrow> char" where
  "digit_char d = ''0123456789'' ! d"

fun dec_string :: "nat \<Rightarrow> string" where
  "dec_string n =
     (if n < 10 then [digit_char n] else dec_string (n div 10) @ [digit_char (n mod 10)])"

declare dec_string.simps [simp del]

definition BigInt_toString :: "int \<Rightarrow> string" where
  "BigInt_toString i = (if i < 0 then CHR ''-'' # dec_string (nat (- i)) else dec_string (nat i))"

subsection \<open>Values\<close>

text \<open>
  What a bitfield can hold, and what \<open>resolve\<close> can return: \<open>undefined\<close>, a number, a
  bigint, or a property that a flags object inherits from \<open>Object.prototype\<close> (a function,
  or for \<open>__proto__\<close> the prototype object), kept by its name.
\<close>

datatype bitval = VUndefined | VNumber jsnum | VBigInt int | VObject string

text \<open>
  What a caller can pass where a \<open>BitFieldResolvable\<close> is expected: one of the above, a
  string, a reference to an instance of \<open>BitField\<close> or of its subclass, or an array.
\<close>

datatype jsval = Prim bitval | JString string | JInstance nat | JArray "jsval list"

datatype error = TypeError | SyntaxError

datatype jstype = TUndefined | TNumber | TBigInt | TString | TObject | TFunction

definition typeof_bits :: "bitval \<Rightarrow> jstype" where
  "typeof_bits v = (case v of
      VUndefined \<Rightarrow> TUndefined
    | VNumber n \<Rightarrow> TNumber
    | VBigInt i \<Rightarrow> TBigInt
    | VObject k \<Rightarrow> if k = ''__proto__'' then TObject else TFunction)"

definition typeof :: "jsval \<Rightarrow> jstype" where
  "typeof x = (case x of
      Prim v \<Rightarrow> typeof_bits v
    | JString s \<Rightarrow> TString
    | JInstance r \<Rightarrow> TObject
    | JArray xs \<Rightarrow> TObject)"

text \<open>
  \<open>a >= b\<close>, written for two numbers or two bigints.  The source evaluates it only after
  \<open>typeof DefaultBit === typeof bit\<close>, and \<open>DefaultBit\<close> is a number or a bigint.
\<close>

definition js_ge :: "bitval \<Rightarrow> bitval \<Rightarrow> bool" where
  "js_ge a b = (case (a, b) of
      (VNumber x, VNumber y) \<Rightarrow> jsnum_ge x y
    | (VBigInt x, VBigInt y) \<Rightarrow> y \<le> x
    | _ \<Rightarrow> False)"

text \<open>\<open>a === b\<close>: same type and same value; an object equals itself only.\<close>

definition strict_equals :: "bitval \<Rightarrow> bitval \<Rightarrow> bool" where
  "strict_equals a b = (case (a, b) of
      (VUndefined, VUndefined) \<Rightarrow> True
    | (VNumber x, VNumber y) \<Rightarrow> jsnum_eq x y
    | (VBigInt x, VBigInt y) \<Rightarrow> x = y
    | (VObject k, VObject l) \<Rightarrow> k = l
    | _ \<Rightarrow> False)"

text \<open>
  \<open>ToNumeric\<close>: \<open>undefined\<close> becomes \<open>NaN\<close>; an inherited function or object becomes a
  string first (its source text, or \<open>[object Object]\<close>), which is no numeric literal, so
  \<open>NaN\<close> as well.
\<close>

datatype numeric = Num jsnum | Big int

definition ToNumeric :: "bitval \<Rightarrow> numeric" where
  "ToNumeric v = (case v of
      VUndefined \<Rightarrow> Num NaN
    | VNumber n \<Rightarrow> Num n
    | VBigInt i \<Rightarrow> Big i
    | VObject k \<Rightarrow> Num NaN)"

text \<open>
  The bitwise operators.  Two numbers are combined as signed 32-bit integers, two
  bigints as unbounded two's complement integers, and a bigint with anything else raises
  \<open>TypeError\<close> (Cannot mix BigInt and other types).
\<close>

definition js_bitor :: "bitval \<Rightarrow> bitval \<Rightarrow> error + bitval" where
  "js_bitor a b = (case (ToNumeric a, ToNumeric b) of
      (Num x, Num y) \<Rightarrow> Inr (VNumber (Finite (of_int (ToInt32 x OR ToInt32 y))))
    | (Big x, Big y) \<Rightarrow> Inr (VBigInt (x OR y))
    | _ \<Rightarrow> Inl TypeError)"

definition js_bitand :: "bitval \<Rightarrow> bitval \<Rightarrow> error + bitval" where
  "js_bitand a b = (case (ToNumeric a, ToNumeric b) of
      (Num x, Num y) \<Rightarrow> Inr (VNumber (Finite (of_int (ToInt32 x AND ToInt32 y))))
    | (Big x, Big y) \<Rightarrow> Inr (VBigInt (x AND y))
    | _ \<Rightarrow> Inl TypeError)"

definition js_bitnot :: "bitval \<Rightarrow> bitval" where
  "js_bitnot a = (case ToNumeric a of
      Num x \<Rightarrow> VNumber (Finite (of_int (NOT (ToInt32 x))))
    | Big x \<Rightarrow> VBigInt (NOT x))"

text \<open>\<open>BigInt(s)\<close> and \<open>Number(s)\<close> on a string.\<close>

definition BigInt_of_string :: "string \<Rightarrow> error + bitval" where
  "BigInt_of_string s = (case StringToBigInt s of None \<Rightarrow> Inl SyntaxError | Some i \<Rightarrow> Inr (VBigInt i))"

definition Number_of_string :: "string \<Rightarrow> bitval" where
  "Number_of_string s = VNumber (StringToNumber s)"

subsection \<open>Flag objects\<close>

text \<open>
  A flags object is an object literal: its own properties in the order they are written,
  each a bigint (the type of every entry of \<open>PermissionFlagsBits\<close>), and the properties of
  \<open>Object.prototype\<close> behind them.  \<open>PermissionFlagsBits\<close> itself comes from the package
  \<open>discord-api-types\<close> and is a parameter \<open>P\<close> of everything below.
\<close>

type_synonym flags = "(string \<times> int) list"

definition Object_prototype_keys :: "string list" where
  "Object_prototype_keys =
     [''constructor'', ''__defineGetter__'', ''__defineSetter__'', ''hasOwnProperty'',
      ''__lookupGetter__'', ''__lookupSetter__'', ''isPrototypeOf'', ''propertyIsEnumerable'',
      ''toString'', ''valueOf'', ''__proto__'', ''toLocaleString'']"

text \<open>\<open>obj[k]\<close>: the own property, else the inherited one, else \<open>undefined\<close>.\<close>

definition get_property :: "flags \<Rightarrow> string \<Rightarrow> bitval" where
  "get_property obj k =
     (case map_of obj k of
        Some v \<Rightarrow> VBigInt v
      | None \<Rightarrow> if k \<in> set Object_prototype_keys then VObject k else VUndefined)"

text \<open>
  \<open>Object.keys\<close>: the own keys that are array indices (the decimal form of an integer
  below \<open>2^32 - 1\<close>) in ascending order, then the other keys in the order they were written.
\<close>

definition is_array_index :: "string \<Rightarrow> bool" where
  "is_array_index s =
     (s \<noteq> [] \<and> list_all is_digit s \<and> dec_string (radix_val 10 s) = s \<and> radix_val 10 s < 4294967295)"

definition Object_keys :: "flags \<Rightarrow> string list" where
  "Object_keys obj =
     (let ks = map fst obj
      in sort_key (radix_val 10) (filter is_array_index ks) @ filter (\<lambda>k. \<not> is_array_index k) ks)"

text \<open>
  \<open>toString()\<close> of an inherited property, as V8 prints a native function; the text is
  implementation-defined.
\<close>

definition Object_toString :: "string \<Rightarrow> string" where
  "Object_toString k =
     (if k = ''__proto__'' then ''[object Object]''
      else ''function '' @ (if k = ''constructor'' then ''Object'' else k) @ ''() { [native code] }'')"

section \<open>The classes\<close>

datatype cls = BitField | PermissionsBitField

text \<open>
  An instance has one field, \<open>bitfield\<close>; \<open>constructor\<close> is its class and \<open>frozen\<close>
  records \<open>Object.freeze\<close>.  Instances live in a heap and are passed by reference (an
  index into the heap), since \<open>add\<close>, \<open>remove\<close> and \<open>freeze\<close> update the receiver in place.
\<close>

record inst =
  constructor :: cls
  bitfield :: bitval
  frozen :: bool

type_synonym heap = "inst list"

text \<open>The static fields \<open>DefaultBit\<close> and \<open>Flags\<close> of the two classes.\<close>

definition DefaultBit :: "cls \<Rightarrow> bitval" where
  "DefaultBit c = (case c of BitField \<Rightarrow> VNumber (Finite 0) | PermissionsBitField \<Rightarrow> VBigInt 0)"

definition Flags :: "flags \<Rightarrow> cls \<Rightarrow> flags" where
  "Flags P c = (case c of BitField \<Rightarrow> [] | PermissionsBitField \<Rightarrow> P)"

subsection \<open>resolve\<close>

text \<open>
  \<open>static resolve(bit)\<close>, called on the class \<open>c\<close>.  The first test of the source,
  \<open>typeof DefaultBit === typeof bit && bit >= DefaultBit\<close>, can only hold for a number or a
  bigint, so it stands in the first equation; an instance, an array and a string fail it
  and reach \<open>instanceof BitField\<close>, \<open>Array.isArray\<close> and \<open>typeof bit === 'string'\<close> in turn.
  \<open>bit.map(p => this.resolve(p))\<close> is \<open>resolve_map\<close>: it resolves every element before
  \<open>reduce\<close> combines the first two.  A reference to no instance is not an instance.
\<close>

fun reduce_or :: "bitval \<Rightarrow> bitval list \<Rightarrow> error + bitval" where
  "reduce_or prev [] = Inr prev"
| "reduce_or prev (p # ps) =
     (case js_bitor prev p of Inl e \<Rightarrow> Inl e | Inr v \<Rightarrow> reduce_or v ps)"

fun resolve :: "flags \<Rightarrow> heap \<Rightarrow> cls \<Rightarrow> jsval \<Rightarrow> error + bitval"
  and resolve_map :: "flags \<Rightarrow> heap \<Rightarrow> cls \<Rightarrow> jsval list \<Rightarrow> error + bitval list"
where
  "resolve P h c (Prim v) =
     (if typeof_bits (DefaultBit c) = typeof_bits v \<and> js_ge v (DefaultBit c) then Inr v
      else Inr VUndefined)"
| "resolve P h c (JInstance r) =
     (if r < length h then Inr (bitfield (h ! r)) else Inr VUndefined)"
| "resolve P h c (JArray xs) =
     (case resolve_map P h c xs of
        Inl e \<Rightarrow> Inl e
      | Inr ps \<Rightarrow> reduce_or (DefaultBit c) ps)"
| "resolve P h c (JString s) =
     (if \<not> isNaN s then
        (if typeof_bits (DefaultBit c) = TBigInt then BigInt_of_string s
         else Inr (Number_of_string s))
      else if get_property (Flags P c) s \<noteq> VUndefined then Inr (get_property (Flags P c) s)
      else Inr VUndefined)"
| "resolve_map P h c [] = Inr []"
| "resolve_map P h c (p # ps) =
     (case resolve P h c p of
        Inl e \<Rightarrow> Inl e
      | Inr v \<Rightarrow> (case resolve_map P h c ps of Inl e \<Rightarrow> Inl e | Inr vs \<Rightarrow> Inr (v # vs)))"

subsection \<open>Methods of BitField\<close>

text \<open>
  Every method takes the flags \<open>P\<close>, the heap and the receiver \<open>this\<close> (a reference to an
  allocated instance).  A method that allocates or updates returns the new heap.
\<close>

text \<open>
  \<open>constructor(bits = this.constructor.DefaultBit)\<close>: the default stands for a missing
  or \<open>undefined\<close> argument.
\<close>

definition new :: "flags \<Rightarrow> heap \<Rightarrow> cls \<Rightarrow> jsval \<Rightarrow> error + (heap \<times> nat)" where
  "new P h c bits =
     (case resolve P h c (if bits = Prim VUndefined then Prim (DefaultBit c) else bits) of
        Inl e \<Rightarrow> Inl e
      | Inr v \<Rightarrow> Inr (h @ [\<lparr>constructor = c, bitfield = v, frozen = False\<rparr>], length h))"

text \<open>\<open>BitField.prototype.has\<close>: \<open>bit = resolve(bit); return (this.bitfield & bit) === bit\<close>
  (\<open>abit\<close> is the argument \<open>bit\<close>).\<close>

definition BitField_has :: "flags \<Rightarrow> heap \<Rightarrow> nat \<Rightarrow> jsval \<Rightarrow> error + bool" where
  "BitField_has P h this abit =
     (case resolve P h (constructor (h ! this)) abit of
        Inl e \<Rightarrow> Inl e
      | Inr b \<Rightarrow>
          (case js_bitand (bitfield (h ! this)) b of
             Inl e \<Rightarrow> Inl e
           | Inr m \<Rightarrow> Inr (strict_equals m b)))"

text \<open>
  \<open>PermissionsBitField.prototype.has(permission, checkAdmin = true)\<close>:
  \<open>(checkAdmin && super.has(PermissionFlagsBits.Administrator)) || super.has(permission)\<close>.
\<close>

definition Permissions_has :: "flags \<Rightarrow> heap \<Rightarrow> nat \<Rightarrow> jsval \<Rightarrow> bool \<Rightarrow> error + bool" where
  "Permissions_has P h this permission checkAdmin =
     (case (if checkAdmin then BitField_has P h this (Prim (get_property P ''Administrator''))
            else Inr False) of
        Inl e \<Rightarrow> Inl e
      | Inr admin \<Rightarrow> if admin then Inr True else BitField_has P h this permission)"

text \<open>
  \<open>this.has(bit, ...hasParams)\<close>: the call is dispatched on the class of the receiver.
  \<open>hasParams\<close> are the extra arguments; \<open>BitField.prototype.has\<close> ignores them, and
  \<open>PermissionsBitField.prototype.has\<close> reads the first as \<open>checkAdmin\<close>, \<open>true\<close> when
  there is none.
\<close>

definition has :: "flags \<Rightarrow> heap \<Rightarrow> nat \<Rightarrow> jsval \<Rightarrow> bool list \<Rightarrow> error + bool" where
  "has P h this abit hasParams =
     (case constructor (h ! this) of
        BitField \<Rightarrow> BitField_has P h this abit
      | PermissionsBitField \<Rightarrow>
          Permissions_has P h this abit (case hasParams of [] \<Rightarrow> True | b # bs \<Rightarrow> b))"

text \<open>
  \<open>*[Symbol.iterator](...hasParams)\<close>, run to its end: the keys \<open>bitName\<close> with
  \<open>isNaN(bitName) && this.has(bitName, ...hasParams)\<close>, in the order of the keys.
\<close>

fun iterate :: "flags \<Rightarrow> heap \<Rightarrow> nat \<Rightarrow> bool list \<Rightarrow> string list \<Rightarrow> error + string list" where
  "iterate P h this hasParams [] = Inr []"
| "iterate P h this hasParams (bitName # ks) =
     (case (if isNaN bitName then has P h this (JString bitName) hasParams else Inr False) of
        Inl e \<Rightarrow> Inl e
      | Inr b \<Rightarrow>
          (case iterate P h this hasParams ks of
             Inl e \<Rightarrow> Inl e
           | Inr names \<Rightarrow> Inr (if b then bitName # names else names)))"

definition BitField_toArray :: "flags \<Rightarrow> heap \<Rightarrow> nat \<Rightarrow> bool list \<Rightarrow> error + string list" where
  "BitField_toArray P h this hasParams =
     iterate P h this hasParams (Object_keys (Flags P (constructor (h ! this))))"

text \<open>\<open>PermissionsBitField.prototype.toArray()\<close>: \<open>super.toArray(false)\<close>.\<close>

definition Permissions_toArray :: "flags \<Rightarrow> heap \<Rightarrow> nat \<Rightarrow> error + string list" where
  "Permissions_toArray P h this = BitField_toArray P h this [False]"

definition toArray :: "flags \<Rightarrow> heap \<Rightarrow> nat \<Rightarrow> bool list \<Rightarrow> error + string list" where
  "toArray P h this hasParams =
     (case constructor (h ! this) of
        BitField \<Rightarrow> BitField_toArray P h this hasParams
      | PermissionsBitField \<Rightarrow> Permissions_toArray P h this)"

text \<open>\<open>freeze()\<close>: \<open>Object.freeze(this)\<close> marks the receiver and returns it.\<close>

definition freeze :: "heap \<Rightarrow> nat \<Rightarrow> heap \<times> nat" where
  "freeze h this = (h[this := (h ! this)\<lparr>frozen := True\<rparr>], this)"

text \<open>
  The loop of \<open>add\<close> and \<open>remove\<close>: \<open>for (const bit of bits) total |= resolve(bit)\<close>,
  left at the first exception.
\<close>

fun or_total :: "flags \<Rightarrow> heap \<Rightarrow> cls \<Rightarrow> bitval \<Rightarrow> jsval list \<Rightarrow> error + bitval" where
  "or_total P h c tot [] = Inr tot"
| "or_total P h c tot (abit # bits) =
     (case resolve P h c abit of
        Inl e \<Rightarrow> Inl e
      | Inr r \<Rightarrow>
          (case js_bitor tot r of
             Inl e \<Rightarrow> Inl e
           | Inr t \<Rightarrow> or_total P h c t bits))"

text \<open>
  \<open>add(...bits)\<close>: a frozen receiver is left alone and a new instance is constructed from
  \<open>this.bitfield | total\<close>; otherwise the receiver is updated and returned.
\<close>

definition add :: "flags \<Rightarrow> heap \<Rightarrow> nat \<Rightarrow> jsval list \<Rightarrow> error + (heap \<times> nat)" where
  "add P h this bits =
     (let c = constructor (h ! this) in
      case or_total P h c (DefaultBit c) bits of
        Inl e \<Rightarrow> Inl e
      | Inr tot \<Rightarrow>
          (case js_bitor (bitfield (h ! this)) tot of
             Inl e \<Rightarrow> Inl e
           | Inr v \<Rightarrow>
               if frozen (h ! this) then new P h c (Prim v)
               else Inr (h[this := (h ! this)\<lparr>bitfield := v\<rparr>], this)))"

text \<open>\<open>remove(...bits)\<close>: the same with \<open>this.bitfield & ~total\<close>.\<close>

definition remove :: "flags \<Rightarrow> heap \<Rightarrow> nat \<Rightarrow> jsval list \<Rightarrow> error + (heap \<times> nat)" where
  "remove P h this bits =
     (let c = constructor (h ! this) in
      case or_total P h c (DefaultBit c) bits of
        Inl e \<Rightarrow> Inl e
      | Inr tot \<Rightarrow>
          (case js_bitand (bitfield (h ! this)) (js_bitnot tot) of
             Inl e \<Rightarrow> Inl e
           | Inr v \<Rightarrow>
               if frozen (h ! this) then new P h c (Prim v)
               else Inr (h[this := (h ! this)\<lparr>bitfield := v\<rparr>], this)))"

text \<open>
  \<open>BitField.prototype.missing(bits, ...hasParams)\<close>:
  \<open>new this.constructor(bits).remove(this).toArray(...hasParams)\<close>.  The temporary
  instance stays in the returned heap; nothing refers to it afterwards.
\<close>

definition BitField_missing ::
  "flags \<Rightarrow> heap \<Rightarrow> nat \<Rightarrow> jsval \<Rightarrow> bool list \<Rightarrow> error + (heap \<times> string list)" where
  "BitField_missing P h this bits hasParams =
     (case new P h (constructor (h ! this)) bits of
        Inl e \<Rightarrow> Inl e
      | Inr (h1, tmp) \<Rightarrow>
          (case remove P h1 tmp [JInstance this] of
             Inl e \<Rightarrow> Inl e
           | Inr (h2, r) \<Rightarrow>
               (case toArray P h2 r hasParams of
                  Inl e \<Rightarrow> Inl e
                | Inr names \<Rightarrow> Inr (h2, names))))"

text \<open>
  \<open>PermissionsBitField.prototype.missing(bits, checkAdmin = true)\<close>:
  \<open>checkAdmin && this.has(PermissionFlagsBits.Administrator) ? [] : super.missing(bits)\<close>.
\<close>

definition Permissions_missing ::
  "flags \<Rightarrow> heap \<Rightarrow> nat \<Rightarrow> jsval \<Rightarrow> bool \<Rightarrow> error + (heap \<times> string list)" where
  "Permissions_missing P h this bits checkAdmin =
     (case (if checkAdmin then has P h this (Prim (get_property P ''Administrator'')) []
            else Inr False) of
        Inl e \<Rightarrow> Inl e
      | Inr admin \<Rightarrow> if admin then Inr (h, []) else BitField_missing P h this bits [])"

definition missing ::
  "flags \<Rightarrow> heap \<Rightarrow> nat \<Rightarrow> jsval \<Rightarrow> bool list \<Rightarrow> error + (heap \<times> string list)" where
  "missing P h this bits hasParams =
     (case constructor (h ! this) of
        BitField \<Rightarrow> BitField_missing P h this bits hasParams
      | PermissionsBitField \<Rightarrow>
          Permissions_missing P h this bits (case hasParams of [] \<Rightarrow> True | b # bs \<Rightarrow> b))"

text \<open>
  \<open>toJSON()\<close>: \<open>typeof this.bitfield === 'number' ? this.bitfield : this.bitfield.toString()\<close>.
  \<open>undefined\<close> has no \<open>toString\<close>.
\<close>

definition toJSON :: "heap \<Rightarrow> nat \<Rightarrow> error + jsval" where
  "toJSON h this =
     (case bitfield (h ! this) of
        VNumber n \<Rightarrow> Inr (Prim (VNumber n))
      | VBigInt i \<Rightarrow> Inr (JString (BigInt_toString i))
      | VUndefined \<Rightarrow> Inl TypeError
      | VObject k \<Rightarrow> Inr (JString (Object_toString k)))"

section \<open>Well-formed inputs and the statements of the specification\<close>

text \<open>
  A value is of the kind of class \<open>c\<close> when it is a number for \<open>BitField\<close> and a bigint
  for \<open>PermissionsBitField\<close>.
\<close>

definition of_kind :: "cls \<Rightarrow> bitval \<Rightarrow> bool" where
  "of_kind c v = (typeof_bits v = typeof_bits (DefaultBit c))"

text \<open>
  A well-formed resolvable, after the data model of the specification: a value of the
  class's kind that is not below zero, a non-empty string of decimal digits, the name of
  a flag, an instance whose bitfield is of the class's kind, or a sequence of such.
\<close>

fun wf_resolvable :: "flags \<Rightarrow> heap \<Rightarrow> cls \<Rightarrow> jsval \<Rightarrow> bool" where
  "wf_resolvable P h c (Prim v) = (of_kind c v \<and> js_ge v (DefaultBit c))"
| "wf_resolvable P h c (JString s) =
     ((s \<noteq> [] \<and> list_all is_digit s) \<or> (isNaN s \<and> s \<in> fst ` set (Flags P c)))"
| "wf_resolvable P h c (JInstance r) = (r < length h \<and> of_kind c (bitfield (h ! r)))"
| "wf_resolvable P h c (JArray xs) = list_all (wf_resolvable P h c) xs"

text \<open>The bits of a value as an integer: a bigint itself, a number through \<open>ToInt32\<close>.\<close>

definition bits_of :: "bitval \<Rightarrow> int" where
  "bits_of v = (case v of VBigInt i \<Rightarrow> i | VNumber n \<Rightarrow> ToInt32 n | _ \<Rightarrow> 0)"

text \<open>
  A flag of value \<open>v\<close> is missing when all its bits are among the requested bits \<open>rb\<close> and
  none is among the receiver's bits \<open>recv\<close>.
\<close>

definition flag_missing :: "int \<Rightarrow> int \<Rightarrow> int \<Rightarrow> bool" where
  "flag_missing rb recv v = (v AND rb = v \<and> v AND recv = 0)"

definition missing_names :: "flags \<Rightarrow> int \<Rightarrow> int \<Rightarrow> string list" where
  "missing_names F rb recv = map fst (filter (\<lambda>(k, v). flag_missing rb recv v) F)"

text \<open>
  A number bitfield on which the 32-bit operators lose nothing: a non-negative integer
  below \<open>2^31\<close>.  A bigint has no such bound.
\<close>

definition in_range :: "bitval \<Rightarrow> bool" where
  "in_range v = (case v of
      VBigInt i \<Rightarrow> True
    | VNumber n \<Rightarrow> (case n of Finite q \<Rightarrow> q = of_int \<lfloor>q\<rfloor> \<and> 0 \<le> q \<and> q < 2 ^ 31 | _ \<Rightarrow> False)
    | _ \<Rightarrow> False)"

text \<open>
  The specification's reading of the string cases of \<open>resolve\<close>: a string of digits only
  is parsed, the name of a flag gives its value, anything else does not resolve.
\<close>

definition spec_resolve_string :: "flags \<Rightarrow> cls \<Rightarrow> string \<Rightarrow> bitval option" where
  "spec_resolve_string P c s =
     (if list_all is_digit s then
        Some (case c of
                BitField \<Rightarrow> VNumber (RoundMV False (of_nat (radix_val 10 s)))
              | PermissionsBitField \<Rightarrow> VBigInt (int (radix_val 10 s)))
      else (case map_of (Flags P c) s of Some v \<Rightarrow> Some (VBigInt v) | None \<Rightarrow> None))"

text \<open>
  The specification's reading of \<open>toJSON\<close>: the raw integer when it fits a number (a safe
  integer, of magnitude at most \<open>2^53 - 1\<close>), else its decimal string.
\<close>

definition fits_native :: "int \<Rightarrow> bool" where
  "fits_native i = (- (2 ^ 53 - 1) \<le> i \<and> i \<le> 2 ^ 53 - 1)"

definition spec_toJSON :: "bitval \<Rightarrow> jsval" where
  "spec_toJSON v =
     (case v of
        VBigInt i \<Rightarrow> if fits_native i then Prim (VBigInt i) else JString (BigInt_toString i)
      | _ \<Rightarrow> Prim v)"

text \<open>
  Modelled from the spec: \<open>PermissionFlagsBits\<close> of the package \<open>discord-api-types\<close> is
  not among the sources.  In the examples the flags of the specification's scenario stand
  for it: \<open>ViewChannel = 0x400\<close>, \<open>SendMessages = 0x800\<close>, \<open>Administrator = 0x8\<close>.
\<close>

definition scenario_Flags :: flags where
  "scenario_Flags = [(''ViewChannel'', 1024), (''SendMessages'', 2048), (''Administrator'', 8)]"

text \<open>An instance of class \<open>c\<close> with bitfield \<open>v\<close> that has not been frozen.\<close>

definition mk :: "cls \<Rightarrow> bitval \<Rightarrow> inst" where
  "mk c v = \<lparr>constructor = c, bitfield = v, frozen = False\<rparr>"

section \<open>Numeric literals\<close>

lemma is_digit_not_ws: "is_digit c \<Longrightarrow> \<not> is_ws c"
  by (auto simp: is_digit_def is_ws_def)

lemma trim_id: "s \<noteq> [] \<Longrightarrow> \<not> is_ws (hd s) \<Longrightarrow> \<not> is_ws (last s) \<Longrightarrow> trim s = s"
proof -
  assume a: "s \<noteq> []" "\<not> is_ws (hd s)" "\<not> is_ws (last s)"
  then have 1: "dropWhile is_ws s = s" by (cases s) auto
  from a have "rev s \<noteq> []" "\<not> is_ws (hd (rev s))" by (auto simp: hd_rev)
  then have 2: "dropWhile is_ws (rev s) = rev s" by (cases "rev s") auto
  show ?thesis by (simp add: trim_def 1 2)
qed

lemma digits_hd_last: "s \<noteq> [] \<Longrightarrow> list_all is_digit s \<Longrightarrow> is_digit (hd s) \<and> is_digit (last s)"
  by (simp add: list_all_iff)

lemma trim_digits: "s \<noteq> [] \<Longrightarrow> list_all is_digit s \<Longrightarrow> trim s = s"
  using digits_hd_last [of s] by (auto intro!: trim_id dest: is_digit_not_ws)

lemma nondecimal_digits: "list_all is_digit s \<Longrightarrow> nondecimal_literal s = None"
  by (auto simp: nondecimal_literal_def is_digit_def split: list.splits)

lemma strip_sign_digits: "s \<noteq> [] \<Longrightarrow> list_all is_digit s \<Longrightarrow> strip_sign s = (False, s)"
  by (auto simp: strip_sign_def is_digit_def split: list.splits)

lemma StringToBigInt_digits:
  "s \<noteq> [] \<Longrightarrow> list_all is_digit s \<Longrightarrow> StringToBigInt s = Some (int (radix_val 10 s))"
  by (simp add: StringToBigInt_def trim_digits nondecimal_digits strip_sign_digits)

lemma RoundMV_not_NaN: "RoundMV neg m \<noteq> NaN"
  by (simp add: RoundMV_def Let_def)

lemma unsigned_decimal_digits:
  "s \<noteq> [] \<Longrightarrow> list_all is_digit s \<Longrightarrow> unsigned_decimal s = Some (of_nat (radix_val 10 s))"
proof -
  assume a: "s \<noteq> []" "list_all is_digit s"
  then have 1: "takeWhile is_digit s = s" "dropWhile is_digit s = []"
    by (auto simp: list_all_iff)
  show ?thesis using a by (simp add: unsigned_decimal_def 1 exponent_part_def pow10_def)
qed

lemma digits_not_Infinity: "list_all is_digit s \<Longrightarrow> s \<noteq> ''Infinity''"
  by (auto simp: is_digit_def)

lemma StringToNumber_digits:
  "s \<noteq> [] \<Longrightarrow> list_all is_digit s \<Longrightarrow> StringToNumber s = RoundMV False (of_nat (radix_val 10 s))"
  by (simp add: StringToNumber_def trim_digits nondecimal_digits strip_sign_digits
      unsigned_decimal_digits digits_not_Infinity)

lemma not_isNaN_digits: "s \<noteq> [] \<Longrightarrow> list_all is_digit s \<Longrightarrow> \<not> isNaN s"
  by (simp add: isNaN_def StringToNumber_digits RoundMV_not_NaN)

section \<open>Decimal strings and keys\<close>

lemma digit_cases: "d < 10 \<Longrightarrow> d \<in> {0, 1, 2, 3, 4, 5, 6, 7, 8, 9 :: nat}"
  by auto

lemma of_char_digit: "d < 10 \<Longrightarrow> (of_char (digit_char d) :: nat) = 48 + d"
  using digit_cases [of d] by (auto simp: digit_char_def)

lemma is_digit_char: "d < 10 \<Longrightarrow> is_digit (digit_char d)"
  by (simp add: is_digit_def of_char_digit)

lemma digit_of_char: "d < 10 \<Longrightarrow> digit_of (digit_char d) = Some d"
  by (simp add: digit_of_def of_char_digit)

lemma radix_val_snoc:
  "radix_val b (s @ [c]) = radix_val b s * b + (case digit_of c of None \<Rightarrow> 0 | Some d \<Rightarrow> d)"
  by (simp add: radix_val_def)

lemma radix_val_single: "radix_val b [c] = (case digit_of c of None \<Rightarrow> 0 | Some d \<Rightarrow> d)"
  by (simp add: radix_val_def)

lemma dec_string_not_Nil: "dec_string n \<noteq> []"
  by (subst dec_string.simps) simp

lemma dec_string_digits: "list_all is_digit (dec_string n)"
proof (induction n rule: dec_string.induct)
  case (1 n)
  show ?case
  proof (cases "n < 10")
    case True
    then show ?thesis by (subst dec_string.simps) (simp add: is_digit_char)
  next
    case False
    with 1 show ?thesis by (subst dec_string.simps) (simp add: is_digit_char)
  qed
qed

lemma radix_val_dec_string: "radix_val 10 (dec_string n) = n"
proof (induction n rule: dec_string.induct)
  case (1 n)
  show ?case
  proof (cases "n < 10")
    case True
    then show ?thesis
      by (subst dec_string.simps) (simp add: radix_val_single digit_of_char)
  next
    case False
    with 1 show ?thesis
      by (subst dec_string.simps) (simp add: radix_val_snoc digit_of_char)
  qed
qed

lemma trim_minus: "ds \<noteq> [] \<Longrightarrow> list_all is_digit ds \<Longrightarrow> trim (CHR ''-'' # ds) = CHR ''-'' # ds"
proof -
  assume a: "ds \<noteq> []" "list_all is_digit ds"
  have "\<not> is_ws (CHR ''-'')" by (simp add: is_ws_def)
  moreover have "\<not> is_ws (last ds)" using a digits_hd_last is_digit_not_ws by blast
  ultimately show ?thesis using a by (intro trim_id) simp_all
qed

lemma nondecimal_minus: "nondecimal_literal (CHR ''-'' # ds) = None"
  by (simp add: nondecimal_literal_def split: list.splits)

lemma strip_sign_minus: "strip_sign (CHR ''-'' # ds) = (True, ds)"
  by (simp add: strip_sign_def)

lemma StringToBigInt_minus:
  "ds \<noteq> [] \<Longrightarrow> list_all is_digit ds \<Longrightarrow>
   StringToBigInt (CHR ''-'' # ds) = Some (- int (radix_val 10 ds))"
  by (simp add: StringToBigInt_def trim_minus nondecimal_minus strip_sign_minus)

lemma not_isNaN_minus: "ds \<noteq> [] \<Longrightarrow> list_all is_digit ds \<Longrightarrow> \<not> isNaN (CHR ''-'' # ds)"
  by (simp add: isNaN_def StringToNumber_def trim_minus nondecimal_minus strip_sign_minus
      unsigned_decimal_digits digits_not_Infinity RoundMV_not_NaN)

lemma StringToBigInt_toString: "StringToBigInt (BigInt_toString i) = Some i"
  by (simp add: BigInt_toString_def StringToBigInt_minus StringToBigInt_digits
      dec_string_not_Nil dec_string_digits radix_val_dec_string)

lemma not_isNaN_toString: "\<not> isNaN (BigInt_toString i)"
  by (simp add: BigInt_toString_def not_isNaN_minus not_isNaN_digits
      dec_string_not_Nil dec_string_digits)

lemma array_index_not_NaN: "is_array_index s \<Longrightarrow> \<not> isNaN s"
  by (simp add: is_array_index_def not_isNaN_digits)

lemma Object_keys_names:
  assumes "\<forall>k \<in> fst ` set F. isNaN k"
  shows "Object_keys F = map fst F"
proof -
  have "\<forall>k \<in> set (map fst F). \<not> is_array_index k"
    using assms array_index_not_NaN by auto
  then have "filter is_array_index (map fst F) = []"
    and "filter (\<lambda>k. \<not> is_array_index k) (map fst F) = map fst F"
    by (simp_all add: filter_empty_conv filter_id_conv del: set_map)
  then show ?thesis by (simp add: Object_keys_def)
qed

section \<open>The bitwise operators\<close>

lemma js_bitor_big [simp]: "js_bitor (VBigInt a) (VBigInt b) = Inr (VBigInt (a OR b))"
  by (simp add: js_bitor_def ToNumeric_def)

lemma js_bitand_big [simp]: "js_bitand (VBigInt a) (VBigInt b) = Inr (VBigInt (a AND b))"
  by (simp add: js_bitand_def ToNumeric_def)

lemma js_bitnot_big [simp]: "js_bitnot (VBigInt a) = VBigInt (NOT a)"
  by (simp add: js_bitnot_def ToNumeric_def)

lemma js_bitor_num [simp]:
  "js_bitor (VNumber x) (VNumber y) = Inr (VNumber (Finite (of_int (ToInt32 x OR ToInt32 y))))"
  by (simp add: js_bitor_def ToNumeric_def)

lemma js_bitand_num [simp]:
  "js_bitand (VNumber x) (VNumber y) = Inr (VNumber (Finite (of_int (ToInt32 x AND ToInt32 y))))"
  by (simp add: js_bitand_def ToNumeric_def)

lemma js_bitnot_num [simp]: "js_bitnot (VNumber x) = VNumber (Finite (of_int (NOT (ToInt32 x))))"
  by (simp add: js_bitnot_def ToNumeric_def)

lemma js_bitor_big_undefined [simp]: "js_bitor (VBigInt a) VUndefined = Inl TypeError"
  by (simp add: js_bitor_def ToNumeric_def)

lemma js_bitor_num_undefined [simp]:
  "js_bitor (VNumber x) VUndefined = Inr (VNumber (Finite (of_int (ToInt32 x))))"
  by (simp add: js_bitor_def ToNumeric_def ToInt32_def)

lemma of_kind_BitField: "of_kind BitField v \<longleftrightarrow> (\<exists>n. v = VNumber n)"
  by (cases v) (auto simp: of_kind_def typeof_bits_def DefaultBit_def)

lemma of_kind_Permissions: "of_kind PermissionsBitField v \<longleftrightarrow> (\<exists>i. v = VBigInt i)"
  by (cases v) (auto simp: of_kind_def typeof_bits_def DefaultBit_def)

lemma of_kind_DefaultBit [simp]: "of_kind c (DefaultBit c)"
  by (simp add: of_kind_def)

lemma js_bitor_of_kind:
  "of_kind c a \<Longrightarrow> of_kind c b \<Longrightarrow> \<exists>v. js_bitor a b = Inr v \<and> of_kind c v"
  by (cases c) (auto simp: of_kind_BitField of_kind_Permissions)

lemma js_bitand_of_kind:
  "of_kind c a \<Longrightarrow> of_kind c b \<Longrightarrow> \<exists>v. js_bitand a b = Inr v \<and> of_kind c v"
  by (cases c) (auto simp: of_kind_BitField of_kind_Permissions)

lemma ToInt32_range: "- (2 ^ 31) \<le> ToInt32 x \<and> ToInt32 x < 2 ^ 31"
proof (cases x)
  case (Finite q)
  define t where "t = (if q < 0 then \<lceil>q\<rceil> else \<lfloor>q\<rfloor>)"
  have "0 \<le> t mod 2 ^ 32" "t mod 2 ^ 32 < 2 ^ 32" by simp_all
  then show ?thesis unfolding Finite ToInt32_def jsnum.case Let_def t_def [symmetric]
    by (auto split: if_splits)
qed (simp_all add: ToInt32_def)

lemma ToInt32_of_int:
  assumes "- (2 ^ 31) \<le> n" "n < 2 ^ 31"
  shows "ToInt32 (Finite (of_int n)) = n"
proof -
  have t: "(if (of_int n :: rat) < 0 then \<lceil>(of_int n :: rat)\<rceil> else \<lfloor>(of_int n :: rat)\<rfloor>) = n"
    by simp
  have m: "n mod 2 ^ 32 = (if n < 0 then n + 2 ^ 32 else n)"
  proof (cases "n < 0")
    case True
    have "n mod 2 ^ 32 = (n + 2 ^ 32) mod 2 ^ 32" by simp
    also have "\<dots> = n + 2 ^ 32" using assms True by (intro mod_pos_pos_trivial) simp_all
    finally show ?thesis by (simp only: True if_True)
  next
    case False
    then have "n mod 2 ^ 32 = n" using assms by (intro mod_pos_pos_trivial) simp_all
    then show ?thesis by (simp only: False if_False)
  qed
  show ?thesis
    unfolding ToInt32_def jsnum.case t Let_def m using assms by auto
qed

lemma ToInt32_idem [simp]: "ToInt32 (Finite (of_int (ToInt32 x))) = ToInt32 x"
  using ToInt32_range [of x] by (intro ToInt32_of_int) simp_all

lemma int32_iff: "(- (2 ^ 31) \<le> k \<and> k < 2 ^ 31) \<longleftrightarrow> signed_take_bit 31 k = (k :: int)"
  by (auto simp: signed_take_bit_int_eq_self_iff)

lemma int32_or:
  fixes a b :: int
  assumes "- (2 ^ 31) \<le> a \<and> a < 2 ^ 31" "- (2 ^ 31) \<le> b \<and> b < 2 ^ 31"
  shows "- (2 ^ 31) \<le> (a OR b) \<and> (a OR b) < 2 ^ 31"
proof -
  have "signed_take_bit 31 a = a" "signed_take_bit 31 b = b"
    using assms by (simp_all only: int32_iff)
  moreover have "signed_take_bit 31 (a OR b) = signed_take_bit 31 a OR signed_take_bit 31 b"
    by (auto simp: bit_eq_iff bit_simps)
  ultimately have "signed_take_bit 31 (a OR b) = a OR b"
    by simp
  then show ?thesis by (simp only: int32_iff)
qed

lemma ToInt32_or [simp]:
  "ToInt32 (Finite (of_int (ToInt32 x OR ToInt32 y))) = ToInt32 x OR ToInt32 y"
  using int32_or [OF ToInt32_range ToInt32_range, of x y] by (intro ToInt32_of_int) simp_all

section \<open>resolve on numbers and bigints\<close>

lemmas resolve_Prim = resolve.simps(1)

lemmas resolve_String = resolve.simps(4)

declare resolve.simps(1) [simp del]

declare resolve.simps(4) [simp del]

text \<open>
  Only a number or a bigint has the type of a \<open>DefaultBit\<close>, so the first test of
  \<open>resolve\<close> fails on every string, instance and array.
\<close>

lemma first_test_primitive: "typeof x = typeof_bits (DefaultBit c) \<Longrightarrow> \<exists>v. x = Prim v"
  by (cases x; cases c) (simp_all add: typeof_def DefaultBit_def typeof_bits_def)

lemma resolve_BigInt:
  "resolve P h PermissionsBitField (Prim (VBigInt i)) = (if 0 \<le> i then Inr (VBigInt i) else Inr VUndefined)"
  by (simp add: resolve_Prim DefaultBit_def typeof_bits_def js_ge_def)

lemma resolve_Number:
  "resolve P h BitField (Prim (VNumber n)) =
     (if jsnum_ge n (Finite 0) then Inr (VNumber n) else Inr VUndefined)"
  by (simp add: resolve_Prim DefaultBit_def typeof_bits_def js_ge_def)

lemma resolve_other_kind:
  "\<not> of_kind c v \<Longrightarrow> resolve P h c (Prim v) = Inr VUndefined"
  by (simp add: resolve_Prim of_kind_def eq_commute)

text \<open>
  C10.  An integer of the class's kind that is strictly below zero does not resolve:
  \<open>resolve\<close> returns \<open>undefined\<close>, it neither returns the integer nor clamps it.  This
  holds for a negative bigint in \<open>PermissionsBitField\<close> and for a negative number
  (negative infinity included) in \<open>BitField\<close>.
\<close>

theorem resolve_below_zero:
  "(i < 0 \<longrightarrow> resolve P h PermissionsBitField (Prim (VBigInt i)) = Inr VUndefined) \<and>
   (q < 0 \<longrightarrow> resolve P h BitField (Prim (VNumber (Finite q))) = Inr VUndefined) \<and>
   resolve P h BitField (Prim (VNumber NegInfinity)) = Inr VUndefined"
  by (simp add: resolve_BigInt resolve_Number jsnum_ge_def is_finite_def mv_def)

theorem resolve_below_zero_witness:
  "resolve scenario_Flags [] PermissionsBitField (Prim (VBigInt (- 5))) = Inr VUndefined \<and>
   resolve scenario_Flags [] BitField (Prim (VNumber (Finite (- 1)))) = Inr VUndefined"
  using resolve_below_zero [of "- 5" scenario_Flags "[]" "- 1"] by simp

section \<open>toJSON\<close>

text \<open>
  C8, as the specification states it, fails: a bigint bitfield that fits a number is not
  returned as the raw integer.  The permission instance with bitfield \<open>8n\<close> gives the
  string \<open>"8"\<close>.
\<close>

theorem toJSON_small_bigint_is_string:
  "toJSON [mk PermissionsBitField (VBigInt 8)] 0 = Inr (JString ''8'') \<and>
   fits_native 8 \<and>
   spec_toJSON (VBigInt 8) = Prim (VBigInt 8)"
  by (simp add: toJSON_def mk_def BigInt_toString_def dec_string.simps digit_char_def fits_native_def
      spec_toJSON_def)

text \<open>
  C8, amended.  \<open>toJSON\<close> decides on the runtime kind of the bitfield, not on its
  size: a number bitfield is returned as it is, and a bigint bitfield is returned as its
  decimal string, whatever its magnitude; \<open>BigInt\<close> reads that string back to the same
  integer.
\<close>

theorem toJSON_by_kind:
  "(bitfield (h ! this) = VNumber n \<longrightarrow> toJSON h this = Inr (Prim (VNumber n))) \<and>
   (bitfield (h ! this) = VBigInt i \<longrightarrow>
      toJSON h this = Inr (JString (BigInt_toString i)) \<and>
      StringToBigInt (BigInt_toString i) = Some i)"
  by (simp add: toJSON_def StringToBigInt_toString)

theorem toJSON_by_kind_witness:
  "toJSON [mk BitField (VNumber (Finite 8))] 0 = Inr (Prim (VNumber (Finite 8))) \<and>
   toJSON [mk PermissionsBitField (VBigInt 1024)] 0 = Inr (JString (BigInt_toString 1024))"
  using toJSON_by_kind [of "[mk BitField (VNumber (Finite 8))]" 0 "Finite 8"]
    toJSON_by_kind [of "[mk PermissionsBitField (VBigInt 1024)]" 0 _ 1024]
  by (simp add: mk_def)

section \<open>resolve on well-formed inputs\<close>

lemma typeof_DefaultBit_Permissions [simp]: "typeof_bits (DefaultBit PermissionsBitField) = TBigInt"
  by (simp add: DefaultBit_def typeof_bits_def)

lemma typeof_DefaultBit_BitField [simp]: "typeof_bits (DefaultBit BitField) = TNumber"
  by (simp add: DefaultBit_def typeof_bits_def)

lemma resolve_digits_Permissions:
  "s \<noteq> [] \<Longrightarrow> list_all is_digit s \<Longrightarrow>
   resolve P h PermissionsBitField (JString s) = Inr (VBigInt (int (radix_val 10 s)))"
  by (simp add: resolve_String not_isNaN_digits BigInt_of_string_def StringToBigInt_digits)

lemma resolve_digits_BitField:
  "s \<noteq> [] \<Longrightarrow> list_all is_digit s \<Longrightarrow>
   resolve P h BitField (JString s) = Inr (VNumber (RoundMV False (of_nat (radix_val 10 s))))"
  by (simp add: resolve_String not_isNaN_digits Number_of_string_def StringToNumber_digits)

lemma resolve_name:
  "isNaN s \<Longrightarrow> map_of P s = Some v \<Longrightarrow>
   resolve P h PermissionsBitField (JString s) = Inr (VBigInt v)"
  by (simp add: resolve_String get_property_def Flags_def)

lemma resolve_prim_wf:
  "of_kind c v \<Longrightarrow> js_ge v (DefaultBit c) \<Longrightarrow> resolve P h c (Prim v) = Inr v"
  by (simp add: resolve_Prim of_kind_def)

lemma reduce_or_of_kind:
  "of_kind c prev \<Longrightarrow> list_all (of_kind c) vs \<Longrightarrow> \<exists>v. reduce_or prev vs = Inr v \<and> of_kind c v"
proof (induction vs arbitrary: prev)
  case Nil
  then show ?case by simp
next
  case (Cons p ps)
  then obtain t where t: "js_bitor prev p = Inr t" "of_kind c t"
    using js_bitor_of_kind [of c prev p] by auto
  with Cons show ?case by simp
qed

lemma resolve_map_of_kind:
  assumes "\<And>x. x \<in> set xs \<Longrightarrow> \<exists>v. resolve P h c x = Inr v \<and> of_kind c v"
  shows "\<exists>vs. resolve_map P h c xs = Inr vs \<and> list_all (of_kind c) vs"
  using assms
proof (induction xs)
  case Nil
  then show ?case by simp
next
  case (Cons x xs)
  then obtain v where v: "resolve P h c x = Inr v" "of_kind c v" by auto
  from Cons obtain vs where vs: "resolve_map P h c xs = Inr vs" "list_all (of_kind c) vs" by auto
  from v vs show ?case by simp
qed

lemma wf_resolve:
  "wf_resolvable P h c x \<Longrightarrow> \<exists>v. resolve P h c x = Inr v \<and> of_kind c v"
proof (induction x)
  case (Prim v)
  then show ?case by (simp add: resolve_prim_wf)
next
  case (JString s)
  show ?case
  proof (cases c)
    case BitField
    have d: "s \<noteq> []" "list_all is_digit s"
      using JString BitField by (auto simp: Flags_def)
    show ?thesis
      unfolding BitField using resolve_digits_BitField [OF d]
      by (auto simp: of_kind_BitField)
  next
    case PermissionsBitField
    from JString consider "s \<noteq> []" "list_all is_digit s" | "isNaN s" "s \<in> fst ` set (Flags P c)"
      by auto
    then show ?thesis
    proof cases
      case 1
      then show ?thesis
        using PermissionsBitField by (simp add: resolve_digits_Permissions of_kind_Permissions)
    next
      case 2
      then have "map_of P s \<noteq> None"
        using PermissionsBitField by (simp add: map_of_eq_None_iff Flags_def)
      then obtain v where "map_of P s = Some v" by auto
      with 2 show ?thesis
        using PermissionsBitField by (simp add: resolve_name of_kind_Permissions)
    qed
  qed
next
  case (JInstance r)
  then show ?case by simp
next
  case (JArray xs)
  then have "\<And>x. x \<in> set xs \<Longrightarrow> \<exists>v. resolve P h c x = Inr v \<and> of_kind c v"
    by (auto simp: list_all_iff)
  then obtain vs where vs: "resolve_map P h c xs = Inr vs" "list_all (of_kind c) vs"
    using resolve_map_of_kind by blast
  then show ?case using reduce_or_of_kind [of c "DefaultBit c" vs] by simp
qed

lemma ToInt32_zero [simp]: "ToInt32 (Finite 0) = 0"
  by (simp add: ToInt32_def)

lemma bitor_DefaultBit:
  assumes "of_kind c ra" "of_kind c rb"
  shows "\<exists>z. js_bitor (DefaultBit c) ra = Inr z \<and> js_bitor z rb = js_bitor ra rb"
proof (cases c)
  case BitField
  with assms obtain x y where "ra = VNumber x" "rb = VNumber y"
    by (auto simp: of_kind_BitField)
  then show ?thesis using BitField by (simp add: DefaultBit_def)
next
  case PermissionsBitField
  with assms obtain x y where "ra = VBigInt x" "rb = VBigInt y"
    by (auto simp: of_kind_Permissions)
  then show ?thesis using PermissionsBitField by (simp add: DefaultBit_def)
qed

text \<open>
  C5.  For well-formed \<open>a\<close>, \<open>b\<close> and \<open>d\<close>, each resolves, and the sequence
  \<open>[a, b, d]\<close> resolves to \<open>resolve(a) | resolve(b) | resolve(d)\<close>; the empty sequence
  resolves to the class's \<open>DefaultBit\<close>.
\<close>

theorem resolve_union:
  assumes "wf_resolvable P h c a" "wf_resolvable P h c b" "wf_resolvable P h c d"
  shows "(\<exists>ra rb rd t u.
            resolve P h c a = Inr ra \<and> resolve P h c b = Inr rb \<and> resolve P h c d = Inr rd \<and>
            js_bitor ra rb = Inr t \<and> js_bitor t rd = Inr u \<and>
            resolve P h c (JArray [a, b, d]) = Inr u) \<and>
         resolve P h c (JArray []) = Inr (DefaultBit c)"
proof -
  from wf_resolve [OF assms(1)] obtain ra where ra: "resolve P h c a = Inr ra" "of_kind c ra"
    by blast
  from wf_resolve [OF assms(2)] obtain rb where rb: "resolve P h c b = Inr rb" "of_kind c rb"
    by blast
  from wf_resolve [OF assms(3)] obtain rd where rd: "resolve P h c d = Inr rd" "of_kind c rd"
    by blast
  note r = ra(1) rb(1) rd(1) and k = ra(2) rb(2) rd(2)
  from k obtain z where z: "js_bitor (DefaultBit c) ra = Inr z" "js_bitor z rb = js_bitor ra rb"
    using bitor_DefaultBit by blast
  from k obtain t where t: "js_bitor ra rb = Inr t" "of_kind c t"
    using js_bitor_of_kind by blast
  with k obtain u where u: "js_bitor t rd = Inr u"
    using js_bitor_of_kind by blast
  have "resolve P h c (JArray [a, b, d]) = Inr u"
    using r z t u by simp
  with r t u show ?thesis by auto
qed

theorem resolve_union_witness:
  "\<exists>ra rb rd t u.
     resolve scenario_Flags [] PermissionsBitField (JString ''ViewChannel'') = Inr ra \<and>
     resolve scenario_Flags [] PermissionsBitField (Prim (VBigInt 8)) = Inr rb \<and>
     resolve scenario_Flags [] PermissionsBitField (JString ''2048'') = Inr rd \<and>
     js_bitor ra rb = Inr t \<and> js_bitor t rd = Inr u \<and>
     resolve scenario_Flags [] PermissionsBitField
       (JArray [JString ''ViewChannel'', Prim (VBigInt 8), JString ''2048'']) = Inr u"
proof -
  have n: "isNaN ''ViewChannel''"
    by (simp add: isNaN_def StringToNumber_def trim_def is_ws_def nondecimal_literal_def
        strip_sign_def unsigned_decimal_def is_digit_def)
  have "wf_resolvable scenario_Flags [] PermissionsBitField (JString ''ViewChannel'')"
    using n by (simp add: scenario_Flags_def Flags_def)
  moreover have "wf_resolvable scenario_Flags [] PermissionsBitField (Prim (VBigInt 8))"
    by (simp add: of_kind_Permissions js_ge_def DefaultBit_def)
  moreover have "wf_resolvable scenario_Flags [] PermissionsBitField (JString ''2048'')"
    by (simp add: is_digit_def)
  ultimately show ?thesis
    using resolve_union [of scenario_Flags "[]" PermissionsBitField "JString ''ViewChannel''"
        "Prim (VBigInt 8)" "JString ''2048''"]
    by blast
qed

section \<open>toJSON and the constructor\<close>

lemma resolve_toString:
  "resolve P h PermissionsBitField (JString (BigInt_toString i)) = Inr (VBigInt i)"
  by (simp add: resolve_String not_isNaN_toString BigInt_of_string_def StringToBigInt_toString)

text \<open>
  C9.  For an instance whose bitfield is of its class's kind (and, for a number, not
  below zero), \<open>toJSON()\<close> succeeds, and the constructor applied to its result gives an
  instance with the same bitfield.  A bigint passes through its decimal string, whatever
  its size; a number is passed as it is.
\<close>

theorem toJSON_roundtrip:
  assumes "this < length h"
    and "of_kind (constructor (h ! this)) (bitfield (h ! this))"
    and "constructor (h ! this) = BitField \<longrightarrow> js_ge (bitfield (h ! this)) (DefaultBit BitField)"
  shows "\<exists>j h' r. toJSON h this = Inr j \<and>
           new P h (constructor (h ! this)) j = Inr (h', r) \<and>
           bitfield (h' ! r) = bitfield (h ! this)"
proof (cases "constructor (h ! this)")
  case BitField
  with assms obtain n where n: "bitfield (h ! this) = VNumber n"
    by (auto simp: of_kind_BitField)
  with assms BitField have "resolve P h BitField (Prim (VNumber n)) = Inr (VNumber n)"
    by (simp add: resolve_prim_wf)
  then show ?thesis using n BitField by (simp add: toJSON_def new_def)
next
  case PermissionsBitField
  with assms obtain i where i: "bitfield (h ! this) = VBigInt i"
    by (auto simp: of_kind_Permissions)
  then show ?thesis
    using PermissionsBitField by (simp add: toJSON_def new_def resolve_toString)
qed

theorem toJSON_roundtrip_witness:
  "(\<exists>j h' r. toJSON [mk PermissionsBitField (VBigInt 1152921504606846976)] 0 = Inr j \<and>
       new scenario_Flags [mk PermissionsBitField (VBigInt 1152921504606846976)]
         PermissionsBitField j = Inr (h', r) \<and>
       bitfield (h' ! r) = VBigInt 1152921504606846976) \<and>
   (\<exists>j h' r. toJSON [mk BitField (VNumber (Finite 5))] 0 = Inr j \<and>
       new scenario_Flags [mk BitField (VNumber (Finite 5))] BitField j = Inr (h', r) \<and>
       bitfield (h' ! r) = VNumber (Finite 5))"
  using toJSON_roundtrip [of 0 "[mk PermissionsBitField (VBigInt 1152921504606846976)]"
      scenario_Flags]
    toJSON_roundtrip [of 0 "[mk BitField (VNumber (Finite 5))]" scenario_Flags]
  by (simp add: mk_def of_kind_Permissions of_kind_BitField js_ge_def DefaultBit_def
      jsnum_ge_def is_finite_def mv_def)

section \<open>The cases of resolve\<close>

text \<open>
  C2, as the specification states it, fails at the strings \<open>"0x10"\<close> and \<open>" 12 "\<close>:
  neither is a string of only digits and neither names a flag, so neither should
  resolve, yet \<open>PermissionsBitField.resolve\<close> gives \<open>16n\<close> and \<open>12n\<close>, since \<open>isNaN\<close>
  accepts both as numeric.
\<close>

theorem resolve_numeric_string:
  "resolve scenario_Flags [] PermissionsBitField (JString ''0x10'') = Inr (VBigInt 16) \<and>
   spec_resolve_string scenario_Flags PermissionsBitField ''0x10'' = None \<and>
   resolve scenario_Flags [] PermissionsBitField (JString '' 12 '') = Inr (VBigInt 12) \<and>
   spec_resolve_string scenario_Flags PermissionsBitField '' 12 '' = None"
proof -
  have n: "\<not> isNaN ''0x10''" "\<not> isNaN '' 12 ''"
    by (simp_all add: isNaN_def StringToNumber_def trim_def is_ws_def nondecimal_literal_def
        radix_literal_def is_radix_digit_def digit_of_def strip_sign_def unsigned_decimal_def
        is_digit_def exponent_part_def RoundMV_not_NaN)
  have b: "StringToBigInt ''0x10'' = Some 16" "StringToBigInt '' 12 '' = Some 12"
    by (simp_all add: StringToBigInt_def trim_def is_ws_def nondecimal_literal_def
        radix_literal_def is_radix_digit_def digit_of_def radix_val_def strip_sign_def
        is_digit_def)
  show ?thesis
    using n b
    by (simp add: resolve_String BigInt_of_string_def spec_resolve_string_def is_digit_def
        Flags_def scenario_Flags_def)
qed

lemma resolve_map_all2:
  "list_all2 (\<lambda>x v. resolve P h c x = Inr v) xs vs \<Longrightarrow> resolve_map P h c xs = Inr vs"
  by (induction xs vs rule: list_all2_induct) simp_all

lemma resolve_map_error:
  "x \<in> set xs \<Longrightarrow> resolve P h c x = Inl e \<Longrightarrow> \<exists>e'. resolve_map P h c xs = Inl e'"
  by (induction xs) (auto split: sum.splits)

lemma resolve_not_NaN:
  "\<not> isNaN s \<Longrightarrow>
   resolve P h c (JString s) =
     (case c of
        BitField \<Rightarrow> Inr (VNumber (StringToNumber s))
      | PermissionsBitField \<Rightarrow>
          (case StringToBigInt s of None \<Rightarrow> Inl SyntaxError | Some i \<Rightarrow> Inr (VBigInt i)))"
  by (cases c) (simp_all add: resolve_String BigInt_of_string_def Number_of_string_def)

lemma resolve_property:
  "isNaN s \<Longrightarrow> resolve P h c (JString s) = Inr (get_property (Flags P c) s)"
  by (simp add: resolve_String)

lemma resolve_numeric_Permissions:
  "\<not> isNaN s \<Longrightarrow> StringToBigInt s = Some i \<Longrightarrow>
   resolve P h PermissionsBitField (JString s) = Inr (VBigInt i)"
  by (simp add: resolve_not_NaN)

lemma resolve_numeric_BitField:
  "\<not> isNaN s \<Longrightarrow> resolve P h BitField (JString s) = Inr (VNumber (StringToNumber s))"
  by (simp add: resolve_not_NaN)

text \<open>
  C2, amended.  \<open>resolve\<close> tries these cases in this order.
  (1) A number (class \<open>BitField\<close>) or a bigint (class \<open>PermissionsBitField\<close>) that is not
  below \<open>DefaultBit\<close> is returned unchanged.
  (2) An instance gives its bitfield.
  (3) A sequence gives the results of its elements combined with \<open>|\<close> from \<open>DefaultBit\<close>.
  (4) A string that \<open>isNaN\<close> accepts as numeric, not only a string of digits, is converted
  to the class's kind with \<open>Number\<close> or \<open>BigInt\<close>; this is stated for a string whose value
  is not below zero.  A non-empty string of digits gives its decimal value.
  (5) A string that \<open>isNaN\<close> rejects and that names a flag gives the flag's value.
  (6) Any other value that is no string, instance or array, and any string that \<open>isNaN\<close>
  rejects and that names neither a flag nor a property of \<open>Object.prototype\<close>, gives
  \<open>undefined\<close>.
\<close>

theorem resolve_cases:
  "(of_kind c v \<and> js_ge v (DefaultBit c) \<longrightarrow> resolve P h c (Prim v) = Inr v) \<and>
   (\<not> (of_kind c v \<and> js_ge v (DefaultBit c)) \<longrightarrow> resolve P h c (Prim v) = Inr VUndefined) \<and>
   (r < length h \<longrightarrow> resolve P h c (JInstance r) = Inr (bitfield (h ! r))) \<and>
   (list_all2 (\<lambda>x v. resolve P h c x = Inr v) xs vs \<longrightarrow>
      resolve P h c (JArray xs) = reduce_or (DefaultBit c) vs) \<and>
   (\<not> isNaN t \<and> StringToBigInt t = Some i \<and> 0 \<le> i \<longrightarrow>
      resolve P h PermissionsBitField (JString t) = Inr (VBigInt i)) \<and>
   (\<not> isNaN t \<and> jsnum_ge (StringToNumber t) (Finite 0) \<longrightarrow>
      resolve P h BitField (JString t) = Inr (VNumber (StringToNumber t))) \<and>
   (d \<noteq> [] \<and> list_all is_digit d \<longrightarrow>
      resolve P h PermissionsBitField (JString d) = Inr (VBigInt (int (radix_val 10 d))) \<and>
      resolve P h BitField (JString d) = Inr (VNumber (RoundMV False (of_nat (radix_val 10 d))))) \<and>
   (isNaN s \<and> map_of (Flags P c) s = Some w \<longrightarrow> resolve P h c (JString s) = Inr (VBigInt w)) \<and>
   (isNaN s \<and> map_of (Flags P c) s = None \<and> s \<notin> set Object_prototype_keys \<longrightarrow>
      resolve P h c (JString s) = Inr VUndefined)"
proof -
  have 1: "of_kind c v \<and> js_ge v (DefaultBit c) \<longrightarrow> resolve P h c (Prim v) = Inr v"
    by (simp add: resolve_prim_wf)
  have 2: "\<not> (of_kind c v \<and> js_ge v (DefaultBit c)) \<longrightarrow> resolve P h c (Prim v) = Inr VUndefined"
    by (auto simp: resolve_Prim of_kind_def)
  have 3: "r < length h \<longrightarrow> resolve P h c (JInstance r) = Inr (bitfield (h ! r))"
    by simp
  have 4: "list_all2 (\<lambda>x v. resolve P h c x = Inr v) xs vs \<longrightarrow>
      resolve P h c (JArray xs) = reduce_or (DefaultBit c) vs"
    by (simp add: resolve_map_all2)
  have 5: "\<not> isNaN t \<and> StringToBigInt t = Some i \<and> 0 \<le> i \<longrightarrow>
      resolve P h PermissionsBitField (JString t) = Inr (VBigInt i)"
    by (simp add: resolve_numeric_Permissions)
  have 6: "\<not> isNaN t \<and> jsnum_ge (StringToNumber t) (Finite 0) \<longrightarrow>
      resolve P h BitField (JString t) = Inr (VNumber (StringToNumber t))"
    by (simp add: resolve_numeric_BitField)
  have 7: "d \<noteq> [] \<and> list_all is_digit d \<longrightarrow>
      resolve P h PermissionsBitField (JString d) = Inr (VBigInt (int (radix_val 10 d))) \<and>
      resolve P h BitField (JString d) = Inr (VNumber (RoundMV False (of_nat (radix_val 10 d))))"
    by (simp add: resolve_digits_Permissions resolve_digits_BitField)
  have 8: "isNaN s \<and> map_of (Flags P c) s = Some w \<longrightarrow> resolve P h c (JString s) = Inr (VBigInt w)"
    by (simp add: resolve_property get_property_def)
  have 9: "isNaN s \<and> map_of (Flags P c) s = None \<and> s \<notin> set Object_prototype_keys \<longrightarrow>
      resolve P h c (JString s) = Inr VUndefined"
    by (simp add: resolve_property get_property_def)
  from 1 2 3 4 5 6 7 8 9 show ?thesis by blast
qed

lemma isNaN_SendMessages: "isNaN ''SendMessages''"
  by (simp add: isNaN_def StringToNumber_def trim_def is_ws_def nondecimal_literal_def
      strip_sign_def unsigned_decimal_def is_digit_def)

lemma isNaN_bogus: "isNaN ''bogus''"
  by (simp add: isNaN_def StringToNumber_def trim_def is_ws_def nondecimal_literal_def
      strip_sign_def unsigned_decimal_def is_digit_def)

lemma numeric_0x10: "\<not> isNaN ''0x10''" "StringToBigInt ''0x10'' = Some 16"
  by (simp_all add: isNaN_def StringToNumber_def StringToBigInt_def trim_def is_ws_def
      nondecimal_literal_def radix_literal_def is_radix_digit_def digit_of_def radix_val_def
      RoundMV_not_NaN)

theorem resolve_cases_witness:
  "resolve scenario_Flags [mk PermissionsBitField (VBigInt 3)] PermissionsBitField (Prim (VBigInt 8))
     = Inr (VBigInt 8) \<and>
   resolve scenario_Flags [mk PermissionsBitField (VBigInt 3)] PermissionsBitField (Prim VUndefined)
     = Inr VUndefined \<and>
   resolve scenario_Flags [mk PermissionsBitField (VBigInt 3)] PermissionsBitField (JInstance 0)
     = Inr (VBigInt 3) \<and>
   resolve scenario_Flags [mk PermissionsBitField (VBigInt 3)] PermissionsBitField
     (JArray [Prim (VBigInt 8), JInstance 0]) = Inr (VBigInt 11) \<and>
   resolve scenario_Flags [mk PermissionsBitField (VBigInt 3)] PermissionsBitField (JString ''0x10'')
     = Inr (VBigInt 16) \<and>
   resolve scenario_Flags [mk PermissionsBitField (VBigInt 3)] PermissionsBitField (JString ''12'')
     = Inr (VBigInt 12) \<and>
   resolve scenario_Flags [mk PermissionsBitField (VBigInt 3)] PermissionsBitField
     (JString ''SendMessages'') = Inr (VBigInt 2048) \<and>
   resolve scenario_Flags [mk PermissionsBitField (VBigInt 3)] PermissionsBitField
     (JString ''bogus'') = Inr VUndefined"
proof -
  let ?h = "[mk PermissionsBitField (VBigInt 3)]"
  note a = resolve_cases [where c = PermissionsBitField and v = "VBigInt 8" and P = scenario_Flags
      and h = ?h and r = 0 and xs = "[Prim (VBigInt 8), JInstance 0]"
      and vs = "[VBigInt 8, VBigInt 3]" and t = "''0x10''" and i = 16 and d = "''12''"
      and s = "''SendMessages''" and w = 2048]
  note b = resolve_cases [where c = PermissionsBitField and v = VUndefined and P = scenario_Flags
      and h = ?h and s = "''bogus''"]
  have 1: "resolve scenario_Flags ?h PermissionsBitField (Prim (VBigInt 8)) = Inr (VBigInt 8)"
    using a by (simp add: of_kind_Permissions js_ge_def DefaultBit_def)
  have 2: "resolve scenario_Flags ?h PermissionsBitField (Prim VUndefined) = Inr VUndefined"
    using b by (simp add: of_kind_Permissions)
  have 3: "resolve scenario_Flags ?h PermissionsBitField (JInstance 0) = Inr (VBigInt 3)"
    using a by (simp add: mk_def)
  have "list_all2 (\<lambda>x v. resolve scenario_Flags ?h PermissionsBitField x = Inr v)
          [Prim (VBigInt 8), JInstance 0] [VBigInt 8, VBigInt 3]"
    using 1 3 by simp
  then have 4: "resolve scenario_Flags ?h PermissionsBitField
      (JArray [Prim (VBigInt 8), JInstance 0]) = Inr (VBigInt 11)"
    using a by (simp add: DefaultBit_def del: resolve.simps)
  have 5: "resolve scenario_Flags ?h PermissionsBitField (JString ''0x10'') = Inr (VBigInt 16)"
    using a numeric_0x10 by simp
  have 6: "resolve scenario_Flags ?h PermissionsBitField (JString ''12'') = Inr (VBigInt 12)"
    using a by (simp add: is_digit_def radix_val_def digit_of_def)
  have 7: "resolve scenario_Flags ?h PermissionsBitField (JString ''SendMessages'')
      = Inr (VBigInt 2048)"
    using a isNaN_SendMessages by (simp add: Flags_def scenario_Flags_def)
  have 8: "resolve scenario_Flags ?h PermissionsBitField (JString ''bogus'') = Inr VUndefined"
    using b isNaN_bogus by (simp add: Flags_def scenario_Flags_def Object_prototype_keys_def)
  from 1 2 3 4 5 6 7 8 show ?thesis by simp
qed

section \<open>An element that does not resolve\<close>

lemma js_bitor_num_cases:
  "(\<exists>e. js_bitor (VNumber a) r = Inl e) \<or>
   (\<exists>k. js_bitor (VNumber a) r = Inr (VNumber (Finite (of_int k))) \<and> - (2 ^ 31) \<le> k \<and> k < 2 ^ 31)"
proof (cases "ToNumeric r")
  case (Num y)
  then have "js_bitor (VNumber a) r = Inr (VNumber (Finite (of_int (ToInt32 a OR ToInt32 y))))"
    by (simp add: js_bitor_def ToNumeric_def)
  then show ?thesis using int32_or [OF ToInt32_range ToInt32_range, of a y] by blast
next
  case (Big y)
  then show ?thesis by (simp add: js_bitor_def ToNumeric_def)
qed

lemma js_bitor_big_cases:
  "(\<exists>e. js_bitor (VBigInt a) r = Inl e) \<or> (\<exists>k. js_bitor (VBigInt a) r = Inr (VBigInt k))"
  by (cases "ToNumeric r") (simp_all add: js_bitor_def ToNumeric_def)

lemma js_bitor_int32_undefined:
  "- (2 ^ 31) \<le> k \<Longrightarrow> k < 2 ^ 31 \<Longrightarrow>
   js_bitor (VNumber (Finite (of_int k))) VUndefined = Inr (VNumber (Finite (of_int k)))"
  by (simp add: ToInt32_of_int)

lemma or_total_skip:
  assumes "resolve P h BitField x = Inr VUndefined" "- (2 ^ 31) \<le> k" "k < 2 ^ 31"
  shows "or_total P h BitField (VNumber (Finite (of_int k))) (xs @ x # ys) =
         or_total P h BitField (VNumber (Finite (of_int k))) (xs @ ys)"
  using assms(2,3)
proof (induction xs arbitrary: k)
  case Nil
  then show ?case using assms(1) by (simp add: ToInt32_of_int)
next
  case (Cons a xs)
  show ?case
  proof (cases "resolve P h BitField a")
    case (Inl e)
    then show ?thesis by simp
  next
    case (Inr r)
    from js_bitor_num_cases [of "Finite (of_int k)" r] show ?thesis
    proof
      assume "\<exists>e. js_bitor (VNumber (Finite (of_int k))) r = Inl e"
      then show ?thesis using Inr by auto
    next
      assume "\<exists>k'. js_bitor (VNumber (Finite (of_int k))) r = Inr (VNumber (Finite (of_int k')))
                \<and> - (2 ^ 31) \<le> k' \<and> k' < 2 ^ 31"
      then obtain k' where k': "js_bitor (VNumber (Finite (of_int k))) r = Inr (VNumber (Finite (of_int k')))"
        "- (2 ^ 31) \<le> k'" "k' < 2 ^ 31" by blast
      then show ?thesis using Inr Cons.IH [of k'] by simp
    qed
  qed
qed

lemma or_total_skip_DefaultBit:
  "resolve P h BitField x = Inr VUndefined \<Longrightarrow>
   or_total P h BitField (DefaultBit BitField) (xs @ x # ys) =
   or_total P h BitField (DefaultBit BitField) (xs @ ys)"
  using or_total_skip [of P h x 0 xs ys] by (simp add: DefaultBit_def)

lemma reduce_or_skip:
  assumes "- (2 ^ 31) \<le> k" "k < 2 ^ 31"
  shows "reduce_or (VNumber (Finite (of_int k))) (vs @ VUndefined # ws) =
         reduce_or (VNumber (Finite (of_int k))) (vs @ ws)"
  using assms
proof (induction vs arbitrary: k)
  case Nil
  then show ?case by (simp add: ToInt32_of_int)
next
  case (Cons r vs)
  from js_bitor_num_cases [of "Finite (of_int k)" r] show ?case
  proof
    assume "\<exists>e. js_bitor (VNumber (Finite (of_int k))) r = Inl e"
    then show ?thesis by auto
  next
    assume "\<exists>k'. js_bitor (VNumber (Finite (of_int k))) r = Inr (VNumber (Finite (of_int k')))
              \<and> - (2 ^ 31) \<le> k' \<and> k' < 2 ^ 31"
    then obtain k' where k': "js_bitor (VNumber (Finite (of_int k))) r = Inr (VNumber (Finite (of_int k')))"
      "- (2 ^ 31) \<le> k'" "k' < 2 ^ 31" by blast
    then show ?thesis using Cons.IH [of k'] by simp
  qed
qed

lemma resolve_map_append:
  "resolve_map P h c (xs @ ys) =
     (case resolve_map P h c xs of
        Inl e \<Rightarrow> Inl e
      | Inr vs \<Rightarrow> (case resolve_map P h c ys of Inl e \<Rightarrow> Inl e | Inr ws \<Rightarrow> Inr (vs @ ws)))"
  by (induction xs) (auto split: sum.splits)

lemma resolve_array_skip:
  assumes "resolve P h BitField x = Inr VUndefined"
  shows "resolve P h BitField (JArray (xs @ x # ys)) = resolve P h BitField (JArray (xs @ ys))"
proof -
  have "reduce_or (DefaultBit BitField) (vs @ VUndefined # ws) =
        reduce_or (DefaultBit BitField) (vs @ ws)" for vs ws
    using reduce_or_skip [of 0 vs ws] by (simp add: DefaultBit_def)
  then show ?thesis
    using assms by (auto simp: resolve_map_append split: sum.splits)
qed

lemma or_total_raises:
  assumes "resolve P h PermissionsBitField x = Inr VUndefined"
  shows "\<exists>e. or_total P h PermissionsBitField (VBigInt t) (xs @ x # ys) = Inl e"
proof (induction xs arbitrary: t)
  case Nil
  then show ?case using assms by simp
next
  case (Cons a xs)
  show ?case
  proof (cases "resolve P h PermissionsBitField a")
    case (Inl e)
    then show ?thesis by simp
  next
    case (Inr r)
    from js_bitor_big_cases [of t r] show ?thesis
    proof
      assume "\<exists>e. js_bitor (VBigInt t) r = Inl e"
      then show ?thesis using Inr by auto
    next
      assume "\<exists>k. js_bitor (VBigInt t) r = Inr (VBigInt k)"
      then obtain k where "js_bitor (VBigInt t) r = Inr (VBigInt k)" by blast
      then show ?thesis using Inr Cons.IH [of k] by simp
    qed
  qed
qed

lemma reduce_or_raises:
  "\<exists>e. reduce_or (VBigInt t) (vs @ VUndefined # ws) = Inl e"
proof (induction vs arbitrary: t)
  case Nil
  then show ?case by simp
next
  case (Cons r vs)
  from js_bitor_big_cases [of t r] show ?case
  proof
    assume "\<exists>e. js_bitor (VBigInt t) r = Inl e"
    then show ?thesis by auto
  next
    assume "\<exists>k. js_bitor (VBigInt t) r = Inr (VBigInt k)"
    then obtain k where "js_bitor (VBigInt t) r = Inr (VBigInt k)" by blast
    then show ?thesis using Cons.IH [of k] by simp
  qed
qed

lemma resolve_array_raises:
  assumes "resolve P h PermissionsBitField x = Inr VUndefined"
  shows "\<exists>e. resolve P h PermissionsBitField (JArray (xs @ x # ys)) = Inl e"
proof (cases "resolve_map P h PermissionsBitField (xs @ x # ys)")
  case (Inl e)
  then show ?thesis by simp
next
  case (Inr us)
  then obtain vs ws where "us = vs @ VUndefined # ws"
    using assms by (auto simp: resolve_map_append split: sum.splits)
  then show ?thesis using Inr reduce_or_raises [of 0 vs ws] by (simp add: DefaultBit_def)
qed

lemma new_Prim_returns: "\<exists>h' r. new P h c (Prim v) = Inr (h', r)"
  by (simp add: new_def resolve_Prim)

lemma add_skip:
  assumes "constructor (h ! this) = BitField" "resolve P h BitField x = Inr VUndefined"
  shows "add P h this (xs @ x # ys) = add P h this (xs @ ys)"
  using or_total_skip_DefaultBit [OF assms(2), of xs ys] assms(1) by (simp add: add_def)

lemma remove_skip:
  assumes "constructor (h ! this) = BitField" "resolve P h BitField x = Inr VUndefined"
  shows "remove P h this (xs @ x # ys) = remove P h this (xs @ ys)"
  using or_total_skip_DefaultBit [OF assms(2), of xs ys] assms(1) by (simp add: remove_def)

lemma add_completes:
  assumes "constructor (h ! this) = BitField" "resolve P h BitField x = Inr VUndefined"
    "of_kind BitField (bitfield (h ! this))"
  shows "\<exists>h' r. add P h this [x] = Inr (h', r)"
proof -
  from assms(3) obtain b where "bitfield (h ! this) = VNumber b"
    by (auto simp: of_kind_BitField)
  then show ?thesis
    using assms(1,2) new_Prim_returns by (simp add: add_def DefaultBit_def)
qed

lemma remove_completes:
  assumes "constructor (h ! this) = BitField" "resolve P h BitField x = Inr VUndefined"
    "of_kind BitField (bitfield (h ! this))"
  shows "\<exists>h' r. remove P h this [x] = Inr (h', r)"
proof -
  from assms(3) obtain b where "bitfield (h ! this) = VNumber b"
    by (auto simp: of_kind_BitField)
  then show ?thesis
    using assms(1,2) new_Prim_returns by (simp add: remove_def DefaultBit_def)
qed

lemma add_raises:
  assumes "constructor (h ! this) = PermissionsBitField"
    "resolve P h PermissionsBitField x = Inr VUndefined"
  shows "\<exists>e. add P h this (xs @ x # ys) = Inl e"
  using or_total_raises [OF assms(2), of 0 xs ys] assms(1) by (auto simp: add_def DefaultBit_def)

lemma remove_raises:
  assumes "constructor (h ! this) = PermissionsBitField"
    "resolve P h PermissionsBitField x = Inr VUndefined"
  shows "\<exists>e. remove P h this (xs @ x # ys) = Inl e"
  using or_total_raises [OF assms(2), of 0 xs ys] assms(1) by (auto simp: remove_def DefaultBit_def)

lemma add_single_raises:
  assumes "constructor (h ! this) = PermissionsBitField"
    "resolve P h PermissionsBitField x = Inr VUndefined"
  shows "add P h this [x] = Inl TypeError"
  using assms by (simp add: add_def DefaultBit_def)

lemma remove_single_raises:
  assumes "constructor (h ! this) = PermissionsBitField"
    "resolve P h PermissionsBitField x = Inr VUndefined"
  shows "remove P h this [x] = Inl TypeError"
  using assms by (simp add: remove_def DefaultBit_def)

lemma resolve_bogus_Permissions:
  "resolve scenario_Flags h PermissionsBitField (JString ''bogus'') = Inr VUndefined"
  by (simp add: resolve_property isNaN_bogus get_property_def Flags_def scenario_Flags_def
      Object_prototype_keys_def)

lemma resolve_bogus_BitField:
  "resolve P h BitField (JString ''bogus'') = Inr VUndefined"
  by (simp add: resolve_property isNaN_bogus get_property_def Flags_def
      Object_prototype_keys_def)

lemma resolve_fraction_raises:
  "resolve P h PermissionsBitField (JString ''1.5'') = Inl SyntaxError"
proof -
  have "\<not> isNaN ''1.5''"
    by (simp add: isNaN_def StringToNumber_def trim_def is_ws_def nondecimal_literal_def
        strip_sign_def unsigned_decimal_def is_digit_def exponent_part_def RoundMV_not_NaN)
  moreover have "StringToBigInt ''1.5'' = None"
    by (simp add: StringToBigInt_def trim_def is_ws_def nondecimal_literal_def
        strip_sign_def is_digit_def)
  ultimately show ?thesis by (simp add: resolve_not_NaN)
qed

text \<open>
  C3, as the specification states it, fails for the permission class: \<open>"bogus"\<close> resolves
  to \<open>undefined\<close>, and \<open>add("bogus")\<close> and \<open>remove("bogus")\<close> raise \<open>TypeError\<close> at
  \<open>0n | undefined\<close> instead of completing.  Nor does \<open>resolve\<close> always return for a string
  it cannot resolve: \<open>"1.5"\<close> raises \<open>SyntaxError\<close>.
\<close>

theorem add_unresolvable_raises:
  "resolve scenario_Flags [mk PermissionsBitField (VBigInt 8)] PermissionsBitField
     (JString ''bogus'') = Inr VUndefined \<and>
   add scenario_Flags [mk PermissionsBitField (VBigInt 8)] 0 [JString ''bogus''] = Inl TypeError \<and>
   remove scenario_Flags [mk PermissionsBitField (VBigInt 8)] 0 [JString ''bogus''] = Inl TypeError \<and>
   resolve scenario_Flags [] PermissionsBitField (JString ''1.5'') = Inl SyntaxError"
  by (simp add: resolve_bogus_Permissions resolve_fraction_raises add_single_raises
      remove_single_raises mk_def)

text \<open>
  C3, amended.  Let \<open>x\<close> resolve to \<open>undefined\<close>.  In class \<open>BitField\<close>, whose bitfields
  are numbers, \<open>|\<close> reads \<open>undefined\<close> as no bits: \<open>add\<close>, \<open>remove\<close> and the resolution of a
  sequence give the same result with \<open>x\<close> among the arguments as without it, and \<open>add(x)\<close>
  and \<open>remove(x)\<close> alone complete on a number bitfield.  In class \<open>PermissionsBitField\<close>,
  whose bitfields are bigints, \<open>|\<close> raises \<open>TypeError\<close> on \<open>undefined\<close>: \<open>add\<close>, \<open>remove\<close>
  and the resolution of a sequence raise as soon as \<open>x\<close> is among the arguments.
\<close>

theorem unresolved_element:
  assumes "this < length h"
    and "resolve P h (constructor (h ! this)) x = Inr VUndefined"
  shows "(constructor (h ! this) = BitField \<longrightarrow>
            add P h this (xs @ x # ys) = add P h this (xs @ ys) \<and>
            remove P h this (xs @ x # ys) = remove P h this (xs @ ys) \<and>
            resolve P h BitField (JArray (xs @ x # ys)) = resolve P h BitField (JArray (xs @ ys)) \<and>
            (of_kind BitField (bitfield (h ! this)) \<longrightarrow>
               (\<exists>h' r. add P h this [x] = Inr (h', r)) \<and>
               (\<exists>h' r. remove P h this [x] = Inr (h', r)))) \<and>
         (constructor (h ! this) = PermissionsBitField \<longrightarrow>
            (\<exists>e. add P h this (xs @ x # ys) = Inl e) \<and>
            (\<exists>e. remove P h this (xs @ x # ys) = Inl e) \<and>
            (\<exists>e. resolve P h PermissionsBitField (JArray (xs @ x # ys)) = Inl e) \<and>
            add P h this [x] = Inl TypeError \<and>
            remove P h this [x] = Inl TypeError)"
proof (cases "constructor (h ! this)")
  case BitField
  with assms have x: "resolve P h BitField x = Inr VUndefined" by simp
  show ?thesis
    using BitField add_skip [OF BitField x] remove_skip [OF BitField x]
      resolve_array_skip [OF x] add_completes [OF BitField x] remove_completes [OF BitField x]
    by simp
next
  case PermissionsBitField
  with assms have x: "resolve P h PermissionsBitField x = Inr VUndefined" by simp
  show ?thesis
    using PermissionsBitField add_raises [OF PermissionsBitField x]
      remove_raises [OF PermissionsBitField x] resolve_array_raises [OF x]
      add_single_raises [OF PermissionsBitField x] remove_single_raises [OF PermissionsBitField x]
    by simp
qed

theorem unresolved_element_witness:
  "add scenario_Flags [mk BitField (VNumber (Finite 5))] 0
       [Prim (VNumber (Finite 2)), JString ''bogus''] =
     add scenario_Flags [mk BitField (VNumber (Finite 5))] 0 [Prim (VNumber (Finite 2))] \<and>
   (\<exists>h' r. add scenario_Flags [mk BitField (VNumber (Finite 5))] 0 [JString ''bogus''] = Inr (h', r)) \<and>
   (\<exists>e. add scenario_Flags [mk PermissionsBitField (VBigInt 8)] 0
       [Prim (VBigInt 2), JString ''bogus''] = Inl e)"
  using
    unresolved_element [of 0 "[mk BitField (VNumber (Finite 5))]" scenario_Flags
      "JString ''bogus''" "[Prim (VNumber (Finite 2))]" "[]"]
    unresolved_element [of 0 "[mk PermissionsBitField (VBigInt 8)]" scenario_Flags
      "JString ''bogus''" "[Prim (VBigInt 2)]" "[]"]
  by (simp add: mk_def resolve_bogus_Permissions resolve_bogus_BitField of_kind_BitField)

section \<open>has\<close>

lemma and_eq_iff_bits: "(b AND r = r) \<longleftrightarrow> (\<forall>n. bit r n \<longrightarrow> bit b n)" for b r :: int
  by (auto simp: bit_eq_iff bit_and_iff)

lemma BitField_has_big:
  assumes "constructor (h ! this) = PermissionsBitField" "bitfield (h ! this) = VBigInt b"
    "resolve P h PermissionsBitField x = Inr (VBigInt r)"
  shows "BitField_has P h this x = Inr (b AND r = r)"
  using assms by (simp add: BitField_has_def strict_equals_def)

lemma BitField_has_num:
  assumes "constructor (h ! this) = BitField" "bitfield (h ! this) = VNumber b"
    "resolve P h BitField x = Inr (VNumber r)"
  shows "BitField_has P h this x = Inr (jsnum_eq (Finite (of_int (ToInt32 b AND ToInt32 r))) r)"
  using assms by (simp add: BitField_has_def strict_equals_def)

lemma in_range_number:
  assumes "in_range (VNumber r)"
  shows "r = Finite (of_int (ToInt32 r)) \<and> 0 \<le> ToInt32 r \<and> ToInt32 r < 2 ^ 31"
proof -
  from assms obtain q where q: "r = Finite q" "q = of_int \<lfloor>q\<rfloor>" "0 \<le> q" "q < 2 ^ 31"
    by (auto simp: in_range_def split: jsnum.splits)
  define n where "n = \<lfloor>q\<rfloor>"
  have n: "q = of_int n" using q(2) n_def by simp
  have "0 \<le> n" "n < 2 ^ 31" using q(3,4) unfolding n by simp_all
  then have "ToInt32 (Finite (of_int n)) = n" by (intro ToInt32_of_int) simp_all
  then show ?thesis using q(1) n \<open>0 \<le> n\<close> \<open>n < 2 ^ 31\<close> by simp
qed

lemma jsnum_eq_of_int: "jsnum_eq (Finite (of_int a)) (Finite (of_int b)) \<longleftrightarrow> a = b"
  by (auto simp: jsnum_eq_def is_finite_def mv_def)

lemma has_masks_value:
  assumes "resolve P h (constructor (h ! this)) x = Inr r"
    and "of_kind (constructor (h ! this)) r"
    and "of_kind (constructor (h ! this)) (bitfield (h ! this))"
    and "in_range r"
  shows "BitField_has P h this x = Inr (bits_of (bitfield (h ! this)) AND bits_of r = bits_of r)"
proof (cases "constructor (h ! this)")
  case BitField
  with assms obtain b n where bn: "bitfield (h ! this) = VNumber b" "r = VNumber n"
    by (auto simp: of_kind_BitField)
  from assms(4) bn have n: "n = Finite (of_int (ToInt32 n))"
    using in_range_number by blast
  have "BitField_has P h this x = Inr (jsnum_eq (Finite (of_int (ToInt32 b AND ToInt32 n))) n)"
    using BitField bn assms(1) by (simp add: BitField_has_num)
  also have "jsnum_eq (Finite (of_int (ToInt32 b AND ToInt32 n))) n
             \<longleftrightarrow> ToInt32 b AND ToInt32 n = ToInt32 n"
    by (subst n) (simp only: jsnum_eq_of_int ToInt32_idem)
  finally show ?thesis using bn by (simp add: bits_of_def)
next
  case PermissionsBitField
  with assms obtain b n where bn: "bitfield (h ! this) = VBigInt b" "r = VBigInt n"
    by (auto simp: of_kind_Permissions)
  then show ?thesis
    using PermissionsBitField assms(1) by (simp add: BitField_has_big bits_of_def)
qed

lemma new_name:
  assumes "isNaN k" "map_of P k = Some v"
  shows "new P h PermissionsBitField (JString k) = Inr (h @ [mk PermissionsBitField (VBigInt v)], length h)"
  using assms by (simp add: new_def resolve_name mk_def)

lemma new_DefaultBit:
  "new P h c (Prim (DefaultBit c)) = Inr (h @ [mk c (DefaultBit c)], length h)"
  by (cases c) (simp_all add: new_def resolve_Prim mk_def DefaultBit_def typeof_bits_def js_ge_def
      jsnum_ge_def is_finite_def mv_def)

lemma new_undefined:
  "new P h c (Prim VUndefined) = Inr (h @ [mk c (DefaultBit c)], length h)"
  using new_DefaultBit [of P h c] by (simp add: new_def)

lemma flag_of_Permissions: "map_of (Flags P c) k = Some v \<Longrightarrow> c = PermissionsBitField"
  by (cases c) (simp_all add: Flags_def)

lemma has_flag_constructed:
  assumes "isNaN k" "map_of (Flags P c) k = Some v"
  shows "\<exists>h1 r1. new P h c (JString k) = Inr (h1, r1) \<and>
           BitField_has P h1 r1 (JString k) = Inr True"
    and "\<exists>h0 r0. new P h c (Prim (DefaultBit c)) = Inr (h0, r0) \<and>
           BitField_has P h0 r0 (JString k) = Inr (v = 0)"
proof -
  have c: "c = PermissionsBitField" using assms(2) flag_of_Permissions by blast
  then have m: "map_of P k = Some v" using assms(2) by (simp add: Flags_def)
  have r: "resolve P h' PermissionsBitField (JString k) = Inr (VBigInt v)" for h'
    using assms(1) m by (simp add: resolve_name)
  show "\<exists>h1 r1. new P h c (JString k) = Inr (h1, r1) \<and>
           BitField_has P h1 r1 (JString k) = Inr True"
    unfolding c using r by (simp add: new_name [OF assms(1) m] BitField_has_big mk_def)
  have "BitField_has P (h @ [mk PermissionsBitField (VBigInt 0)]) (length h) (JString k)
          = Inr (v = 0)"
    using r by (auto simp: BitField_has_big mk_def)
  then show "\<exists>h0 r0. new P h c (Prim (DefaultBit c)) = Inr (h0, r0) \<and>
           BitField_has P h0 r0 (JString k) = Inr (v = 0)"
    unfolding c new_DefaultBit by (simp add: DefaultBit_def)
qed

lemma has_masks_formula:
  assumes "resolve P h (constructor (h ! this)) x = Inr r"
  shows "BitField_has P h this x =
         (case js_bitand (bitfield (h ! this)) r of
            Inl e \<Rightarrow> Inl e
          | Inr m \<Rightarrow> Inr (strict_equals m r))"
  using assms by (simp add: BitField_has_def)

text \<open>
  C7.  When \<open>bit\<close> resolves to \<open>r\<close>, \<open>BitField.prototype.has(bit)\<close> returns
  \<open>(bitfield & r) === r\<close>.  When \<open>r\<close> and the bitfield are of the class's kind, this is
  true exactly when every set bit of \<open>r\<close> is set in the bitfield.  (For the numbers of
  class \<open>BitField\<close>, \<open>&\<close> works on signed 32-bit integers, and \<open>r\<close> is taken to be a
  non-negative integer below \<open>2^31\<close>; for bigints there is no bound.)  For a flag \<open>k\<close> of
  value \<open>v\<close>, the instance constructed from \<open>k\<close> has \<open>k\<close>, and the instance constructed
  from \<open>DefaultBit\<close> has it only if \<open>v\<close> is zero.
\<close>

theorem has_masks:
  "(this < length h \<and> resolve P h (constructor (h ! this)) x = Inr r \<longrightarrow>
      BitField_has P h this x =
        (case js_bitand (bitfield (h ! this)) r of
           Inl e \<Rightarrow> Inl e
         | Inr m \<Rightarrow> Inr (strict_equals m r))) \<and>
   (this < length h \<and> resolve P h (constructor (h ! this)) x = Inr r \<and>
    of_kind (constructor (h ! this)) r \<and>
    of_kind (constructor (h ! this)) (bitfield (h ! this)) \<and> in_range r \<longrightarrow>
      BitField_has P h this x = Inr (bits_of (bitfield (h ! this)) AND bits_of r = bits_of r) \<and>
      ((bits_of (bitfield (h ! this)) AND bits_of r = bits_of r) \<longleftrightarrow>
       (\<forall>n. bit (bits_of r) n \<longrightarrow> bit (bits_of (bitfield (h ! this))) n))) \<and>
   (isNaN k \<and> map_of (Flags P c) k = Some v \<longrightarrow>
      (\<exists>h1 r1. new P h c (JString k) = Inr (h1, r1) \<and>
         BitField_has P h1 r1 (JString k) = Inr True) \<and>
      (\<exists>h0 r0. new P h c (Prim (DefaultBit c)) = Inr (h0, r0) \<and>
         BitField_has P h0 r0 (JString k) = Inr (v = 0)))"
  using has_masks_formula [of P h this x r] has_masks_value [of P h this x r]
    has_flag_constructed [of k P c v h]
    and_eq_iff_bits [of "bits_of (bitfield (h ! this))" "bits_of r"]
  by blast

theorem has_masks_witness:
  "BitField_has scenario_Flags [mk PermissionsBitField (VBigInt 1024)] 0 (JString ''SendMessages'')
     = Inr False \<and>
   BitField_has scenario_Flags [mk PermissionsBitField (VBigInt 3072)] 0 (JString ''SendMessages'')
     = Inr True \<and>
   (\<exists>h1 r1. new scenario_Flags [mk PermissionsBitField (VBigInt 1024)] PermissionsBitField
        (JString ''SendMessages'') = Inr (h1, r1) \<and>
      BitField_has scenario_Flags h1 r1 (JString ''SendMessages'') = Inr True) \<and>
   (\<exists>h0 r0. new scenario_Flags [mk PermissionsBitField (VBigInt 1024)] PermissionsBitField
        (Prim (DefaultBit PermissionsBitField)) = Inr (h0, r0) \<and>
      BitField_has scenario_Flags h0 r0 (JString ''SendMessages'') = Inr False)"
proof -
  have r: "resolve scenario_Flags h PermissionsBitField (JString ''SendMessages'') = Inr (VBigInt 2048)"
    for h
    by (simp add: resolve_name isNaN_SendMessages scenario_Flags_def)
  show ?thesis
    using
      has_masks [where this = 0 and h = "[mk PermissionsBitField (VBigInt 1024)]"
        and P = scenario_Flags and x = "JString ''SendMessages''" and r = "VBigInt 2048"
        and k = "''SendMessages''" and c = PermissionsBitField and v = 2048]
      has_masks [where this = 0 and h = "[mk PermissionsBitField (VBigInt 3072)]"
        and P = scenario_Flags and x = "JString ''SendMessages''" and r = "VBigInt 2048"
        and k = "''SendMessages''" and c = PermissionsBitField and v = 2048]
      r isNaN_SendMessages
    by (simp add: mk_def of_kind_Permissions in_range_def bits_of_def Flags_def scenario_Flags_def
        strict_equals_def)
qed

text \<open>
  Beyond that range the 32-bit operators lose bits: a number bitfield \<open>2^31\<close> does not
  have \<open>2^31\<close>, since \<open>2147483648 & 2147483648\<close> is \<open>-2147483648\<close>.
\<close>

lemma has_number_bit31:
  "resolve P [mk BitField (VNumber (Finite 2147483648))] BitField (Prim (VNumber (Finite 2147483648)))
     = Inr (VNumber (Finite 2147483648)) \<and>
   js_bitand (VNumber (Finite 2147483648)) (VNumber (Finite 2147483648))
     = Inr (VNumber (Finite (- 2147483648))) \<and>
   BitField_has P [mk BitField (VNumber (Finite 2147483648))] 0 (Prim (VNumber (Finite 2147483648)))
     = Inr False"
proof -
  have t: "ToInt32 (Finite 2147483648) = - 2147483648"
    by (simp add: ToInt32_def)
  have r: "resolve P h BitField (Prim (VNumber (Finite 2147483648))) = Inr (VNumber (Finite 2147483648))"
    for h
    by (simp add: resolve_Number jsnum_ge_def is_finite_def mv_def)
  show ?thesis
    by (simp add: r t BitField_has_def mk_def strict_equals_def jsnum_eq_def is_finite_def mv_def)
qed

section \<open>Enumeration\<close>

lemma isNaN_Administrator: "isNaN ''Administrator''"
  by (simp add: isNaN_def StringToNumber_def trim_def is_ws_def nondecimal_literal_def
      strip_sign_def unsigned_decimal_def is_digit_def)

lemma has_unchecked:
  assumes "constructor (h ! this) = PermissionsBitField" "bitfield (h ! this) = VBigInt b"
    "isNaN k" "map_of P k = Some v"
  shows "has P h this (JString k) (False # bs) = Inr (b AND v = v)"
  using assms by (simp add: has_def Permissions_has_def BitField_has_big resolve_name)

lemma iterate_Permissions:
  assumes "constructor (h ! this) = PermissionsBitField" "bitfield (h ! this) = VBigInt b"
    and "\<forall>k \<in> set ks. isNaN k \<and> k \<in> fst ` set P"
  shows "iterate P h this (False # bs) ks =
         Inr (filter (\<lambda>k. case map_of P k of Some v \<Rightarrow> b AND v = v | None \<Rightarrow> False) ks)"
  using assms(3)
proof (induction ks)
  case Nil
  then show ?case by simp
next
  case (Cons k ks)
  then have "map_of P k \<noteq> None" by (simp add: map_of_eq_None_iff)
  then obtain v where v: "map_of P k = Some v" by auto
  from Cons have n: "isNaN k" by simp
  show ?case
    using Cons n v has_unchecked [OF assms(1,2) n v] by simp
qed

lemma filter_map_of:
  assumes "distinct (map fst F)"
  shows "filter (\<lambda>k. case map_of F k of Some v \<Rightarrow> Q v | None \<Rightarrow> False) (map fst F) =
         map fst (filter (\<lambda>(k, v). Q v) F)"
proof -
  have "filter (\<lambda>k. case map_of F k of Some v \<Rightarrow> Q v | None \<Rightarrow> False) (map fst F) =
        map fst (filter (\<lambda>kv. case map_of F (fst kv) of Some v \<Rightarrow> Q v | None \<Rightarrow> False) F)"
    by (simp add: filter_map comp_def)
  also have "filter (\<lambda>kv. case map_of F (fst kv) of Some v \<Rightarrow> Q v | None \<Rightarrow> False) F =
             filter (\<lambda>(k, v). Q v) F"
  proof (rule filter_cong [OF refl])
    fix kv assume "kv \<in> set F"
    then have "map_of F (fst kv) = Some (snd kv)"
      using map_of_is_SomeI [OF assms, of "fst kv" "snd kv"] by simp
    then show "(case map_of F (fst kv) of Some v \<Rightarrow> Q v | None \<Rightarrow> False) = (case kv of (k, v) \<Rightarrow> Q v)"
      by (cases kv) simp
  qed
  finally show ?thesis .
qed

lemma toArray_Permissions:
  assumes "constructor (h ! this) = PermissionsBitField" "bitfield (h ! this) = VBigInt b"
    and "distinct (map fst P)" "\<forall>k \<in> fst ` set P. isNaN k"
  shows "toArray P h this hasParams = Inr (map fst (filter (\<lambda>(k, v). b AND v = v) P))"
proof -
  have "\<forall>k \<in> set (map fst P). isNaN k \<and> k \<in> fst ` set P"
    using assms(4) by simp
  then have "iterate P h this [False] (map fst P) =
      Inr (filter (\<lambda>k. case map_of P k of Some v \<Rightarrow> b AND v = v | None \<Rightarrow> False) (map fst P))"
    using iterate_Permissions [OF assms(1,2)] by blast
  then show ?thesis
    using assms(1) Object_keys_names [OF assms(4)] filter_map_of [OF assms(3)]
    by (simp add: toArray_def Permissions_toArray_def BitField_toArray_def Flags_def)
qed

lemma toArray_BitField:
  assumes "constructor (h ! this) = BitField"
  shows "toArray P h this hasParams = Inr []"
  using assms by (simp add: toArray_def BitField_toArray_def Flags_def Object_keys_def)

section \<open>missing\<close>

lemma flag_missing_iff: "((rb AND NOT r) AND v = v) \<longleftrightarrow> flag_missing rb r v"
  unfolding flag_missing_def by (auto simp: bit_eq_iff bit_and_iff bit_not_iff)

lemma flag_missing_bits:
  "flag_missing rb r v \<longleftrightarrow> (\<forall>n. bit v n \<longrightarrow> bit rb n \<and> \<not> bit r n)"
  unfolding flag_missing_def by (auto simp: bit_eq_iff bit_and_iff)

lemma missing_Permissions:
  assumes "this < length h" "constructor (h ! this) = PermissionsBitField"
    "bitfield (h ! this) = VBigInt r"
    and "resolve P h PermissionsBitField bits = Inr (VBigInt rb)" "bits \<noteq> Prim VUndefined"
    and "distinct (map fst P)" "\<forall>k \<in> fst ` set P. isNaN k"
  shows "\<exists>h'. BitField_missing P h this bits hasParams = Inr (h', missing_names P rb r) \<and>
           h' ! this = h ! this"
proof -
  define h1 where "h1 = h @ [\<lparr>constructor = PermissionsBitField, bitfield = VBigInt rb, frozen = False\<rparr>]"
  define h2 where "h2 = h1[length h := (h1 ! length h)\<lparr>bitfield := VBigInt (rb AND NOT r)\<rparr>]"
  have n: "new P h PermissionsBitField bits = Inr (h1, length h)"
    using assms(4,5) by (simp add: new_def h1_def)
  have t: "h1 ! this = h ! this" "h1 ! length h =
      \<lparr>constructor = PermissionsBitField, bitfield = VBigInt rb, frozen = False\<rparr>"
    "this < length h1"
    using assms(1) by (simp_all add: h1_def nth_append)
  have ot: "or_total P h1 PermissionsBitField (VBigInt 0) [JInstance this] = Inr (VBigInt r)"
    using t assms(3) by simp
  have rm: "remove P h1 (length h) [JInstance this] = Inr (h2, length h)"
    using t(2) by (simp add: remove_def DefaultBit_def h2_def ot del: or_total.simps)
  have l: "length h < length h1" by (simp add: h1_def)
  have c2: "constructor (h2 ! length h) = PermissionsBitField"
    "bitfield (h2 ! length h) = VBigInt (rb AND NOT r)"
    using l t(2) by (simp_all add: h2_def)
  have ta: "toArray P h2 (length h) hasParams =
      Inr (map fst (filter (\<lambda>(k, v). (rb AND NOT r) AND v = v) P))"
    using toArray_Permissions [OF c2 assms(6,7)] .
  have "h2 ! this = h ! this"
    using assms(1) t(1) by (simp add: h2_def)
  moreover have "BitField_missing P h this bits hasParams = Inr (h2, missing_names P rb r)"
    using n rm ta assms(2) by (simp add: BitField_missing_def missing_names_def flag_missing_iff)
  ultimately show ?thesis by blast
qed

lemma missing_BitField:
  assumes "this < length h" "constructor (h ! this) = BitField"
    "bitfield (h ! this) = VNumber r"
    and "resolve P h BitField bits = Inr (VNumber rb)" "bits \<noteq> Prim VUndefined"
  shows "\<exists>h'. BitField_missing P h this bits hasParams = Inr (h', []) \<and> h' ! this = h ! this"
proof -
  define h1 where "h1 = h @ [\<lparr>constructor = BitField, bitfield = VNumber rb, frozen = False\<rparr>]"
  have n: "new P h BitField bits = Inr (h1, length h)"
    using assms(4,5) by (simp add: new_def h1_def)
  have t: "h1 ! this = h ! this" "h1 ! length h =
      \<lparr>constructor = BitField, bitfield = VNumber rb, frozen = False\<rparr>"
    "this < length h1"
    using assms(1) by (simp_all add: h1_def nth_append)
  obtain w where w: "or_total P h1 BitField (DefaultBit BitField) [JInstance this] = Inr (VNumber w)"
    using t assms(3) by (simp add: DefaultBit_def)
  define h2 where "h2 = h1[length h := (h1 ! length h)
    \<lparr>bitfield := VNumber (Finite (of_int (ToInt32 rb AND ToInt32 (Finite (of_int (NOT (ToInt32 w)))))))\<rparr>]"
  have rm: "remove P h1 (length h) [JInstance this] = Inr (h2, length h)"
    using t(2) by (simp add: remove_def h2_def w del: or_total.simps)
  have l: "length h < length h1" by (simp add: h1_def)
  have c2: "constructor (h2 ! length h) = BitField"
    using l t(2) by (simp add: h2_def)
  have "h2 ! this = h ! this"
    using assms(1) t(1) by (simp add: h2_def)
  moreover have "BitField_missing P h this bits hasParams = Inr (h2, [])"
    using n rm toArray_BitField [OF c2] assms(2) by (simp add: BitField_missing_def)
  ultimately show ?thesis by blast
qed

lemma wf_not_undefined: "wf_resolvable P h c bits \<Longrightarrow> bits \<noteq> Prim VUndefined"
  by (cases c) (auto simp: of_kind_BitField of_kind_Permissions)

text \<open>
  C6.  For a receiver whose bitfield is of its class's kind and a well-formed \<open>bits\<close>,
  \<open>BitField.prototype.missing(bits)\<close> returns the names of the flags, in the order the
  flags object declares them, all of whose bits are in the resolved \<open>bits\<close> and none of
  whose bits is set in the receiver; the receiver is left as it was.  (The flags object
  has distinct names, none of them numeric.  Class \<open>BitField\<close> declares no flags, so the
  result is empty there.)
\<close>

theorem missing_lists_unset_flags:
  assumes "this < length h"
    and "of_kind (constructor (h ! this)) (bitfield (h ! this))"
    and "wf_resolvable P h (constructor (h ! this)) bits"
    and "distinct (map fst P)"
    and "\<forall>k \<in> fst ` set P. isNaN k"
  shows "(\<exists>h' rb. resolve P h (constructor (h ! this)) bits = Inr rb \<and>
           BitField_missing P h this bits hasParams =
             Inr (h', missing_names (Flags P (constructor (h ! this))) (bits_of rb)
                        (bits_of (bitfield (h ! this)))) \<and>
           h' ! this = h ! this) \<and>
         (flag_missing rb' recv v \<longleftrightarrow> (\<forall>n. bit v n \<longrightarrow> bit rb' n \<and> \<not> bit recv n))"
proof -
  from wf_resolve [OF assms(3)] obtain rb where
    rb: "resolve P h (constructor (h ! this)) bits = Inr rb" "of_kind (constructor (h ! this)) rb"
    by blast
  note u = wf_not_undefined [OF assms(3)]
  have "\<exists>h'. BitField_missing P h this bits hasParams =
             Inr (h', missing_names (Flags P (constructor (h ! this))) (bits_of rb)
                        (bits_of (bitfield (h ! this)))) \<and>
           h' ! this = h ! this"
  proof (cases "constructor (h ! this)")
    case BitField
    with assms(2) rb obtain r n where rn: "bitfield (h ! this) = VNumber r" "rb = VNumber n"
      by (auto simp: of_kind_BitField)
    show ?thesis
      using missing_BitField [OF assms(1) BitField rn(1) _ u, of P n hasParams] rb(1) rn BitField
      by (simp add: Flags_def missing_names_def)
  next
    case PermissionsBitField
    with assms(2) rb obtain r n where rn: "bitfield (h ! this) = VBigInt r" "rb = VBigInt n"
      by (auto simp: of_kind_Permissions)
    show ?thesis
      using missing_Permissions [OF assms(1) PermissionsBitField rn(1) _ u assms(4,5), of n hasParams]
        rb(1) rn PermissionsBitField
      by (simp add: Flags_def bits_of_def)
  qed
  with rb(1) flag_missing_bits show ?thesis by blast
qed

theorem missing_lists_unset_flags_witness:
  "\<exists>h'. BitField_missing scenario_Flags [mk PermissionsBitField (VBigInt 1024)] 0
           (JArray [JString ''ViewChannel'', JString ''SendMessages'']) [] =
         Inr (h', [''SendMessages''])"
proof -
  let ?h = "[mk PermissionsBitField (VBigInt 1024)]"
  let ?bits = "JArray [JString ''ViewChannel'', JString ''SendMessages'']"
  have n: "isNaN ''ViewChannel''" "isNaN ''SendMessages''" "isNaN ''Administrator''"
    by (simp_all add: isNaN_def StringToNumber_def trim_def is_ws_def nondecimal_literal_def
        strip_sign_def unsigned_decimal_def is_digit_def)
  have c: "constructor (?h ! 0) = PermissionsBitField" "bitfield (?h ! 0) = VBigInt 1024"
    by (simp_all add: mk_def)
  have r: "resolve scenario_Flags ?h PermissionsBitField ?bits = Inr (VBigInt 3072)"
    using n by (simp add: resolve_name scenario_Flags_def DefaultBit_def)
  have 1: "0 < length ?h" by simp
  have 2: "of_kind (constructor (?h ! 0)) (bitfield (?h ! 0))"
    by (simp add: mk_def of_kind_Permissions)
  have 3: "wf_resolvable scenario_Flags ?h (constructor (?h ! 0)) ?bits"
    unfolding c using n by (simp add: Flags_def scenario_Flags_def)
  have d: "distinct (map fst scenario_Flags)" "\<forall>k \<in> fst ` set scenario_Flags. isNaN k"
    using n by (simp_all add: scenario_Flags_def)
  have m: "missing_names scenario_Flags 3072 1024 = [''SendMessages'']"
    by (simp add: missing_names_def scenario_Flags_def flag_missing_def)
  from missing_lists_unset_flags [OF 1 2 3 d, of "[]"] obtain h' rb where
    a: "resolve scenario_Flags ?h (constructor (?h ! 0)) ?bits = Inr rb"
    and b: "BitField_missing scenario_Flags ?h 0 ?bits [] =
             Inr (h', missing_names (Flags scenario_Flags (constructor (?h ! 0))) (bits_of rb)
                        (bits_of (bitfield (?h ! 0))))"
    by blast
  from a r have "rb = VBigInt 3072" unfolding c by simp
  with b m have "BitField_missing scenario_Flags ?h 0 ?bits [] = Inr (h', [''SendMessages''])"
    unfolding c by (simp add: Flags_def bits_of_def)
  then show ?thesis by blast
qed

section \<open>The administrator override\<close>

lemma and_pow2_iff: "(2 ^ n AND v = v) \<longleftrightarrow> (v = 0 \<or> v = 2 ^ n)" for v :: int
proof
  assume a: "2 ^ n AND v = v"
  have b: "m = n" if "bit v m" for m
  proof -
    have "bit (2 ^ n AND v) m" using that by (simp only: a)
    then have "bit ((2::int) ^ n) m" by (simp only: bit_and_iff)
    then show ?thesis by (simp add: bit_exp_iff)
  qed
  show "v = 0 \<or> v = 2 ^ n"
  proof (cases "bit v n")
    case True
    have "bit v m \<longleftrightarrow> bit ((2::int) ^ n) m" for m
      using True b [of m] by (auto simp: bit_exp_iff)
    then have "v = 2 ^ n" by (simp only: bit_eq_iff) simp
    then show ?thesis by (rule disjI2)
  next
    case False
    have "\<not> bit v m" for m
      using False b [of m] by auto
    then have "v = 0" by (simp add: bit_eq_iff)
    then show ?thesis by (rule disjI1)
  qed
next
  assume "v = 0 \<or> v = 2 ^ n"
  then show "2 ^ n AND v = v"
  proof
    assume "v = 0"
    then show ?thesis by simp
  next
    assume "v = 2 ^ n"
    then show ?thesis by simp
  qed
qed

lemma has_Permissions:
  assumes "constructor (h ! this) = PermissionsBitField" "bitfield (h ! this) = VBigInt b"
    and "map_of P ''Administrator'' = Some a" "0 \<le> a"
  shows "has P h this x [] =
         (if b AND a = a then Inr True else BitField_has P h this x)"
proof -
  have "BitField_has P h this (Prim (VBigInt a)) = Inr (b AND a = a)"
    using assms by (simp add: BitField_has_big resolve_BigInt)
  then show ?thesis
    using assms by (simp add: has_def Permissions_has_def get_property_def)
qed

lemma filter_single:
  assumes "distinct (map fst F)" "(k0, v0) \<in> set F" "Q v0"
    and "\<forall>(k, v) \<in> set F. k \<noteq> k0 \<longrightarrow> \<not> Q v"
  shows "map fst (filter (\<lambda>(k, v). Q v) F) = [k0]"
  using assms
proof (induction F)
  case Nil
  then show ?case by simp
next
  case (Cons kv F)
  obtain k v where kv: "kv = (k, v)" by (cases kv)
  show ?case
  proof (cases "k = k0")
    case True
    with Cons.prems kv have v: "v = v0"
      by (auto simp: image_iff)
    from Cons.prems kv True have "k0 \<notin> fst ` set F" by simp
    then have "\<forall>(k', v') \<in> set F. k' \<noteq> k0" by (auto simp: image_iff)
    with Cons.prems(4) have "\<forall>(k', v') \<in> set F. \<not> Q v'" by fastforce
    then have "filter (\<lambda>(k, v). Q v) F = []"
      by (auto simp: filter_empty_conv)
    then show ?thesis using kv True v Cons.prems(3) by simp
  next
    case False
    with Cons.prems kv have "\<not> Q v" "(k0, v0) \<in> set F" by auto
    then show ?thesis using Cons kv by simp
  qed
qed

text \<open>
  C1.  Let the administrator flag be a single bit, and let every other flag be non-zero
  and different from it (the name of no flag being numeric or repeated).  For a
  permission instance whose bitfield is exactly the administrator bit, \<open>has(f)\<close> with
  \<open>checkAdmin\<close> left to its default is \<open>true\<close> for every \<open>f\<close>, \<open>missing(bits)\<close> is the empty
  sequence for every \<open>bits\<close>, and \<open>toArray()\<close> is the one name \<open>Administrator\<close>.
\<close>

theorem administrator_asymmetry:
  assumes "this < length h"
    and "constructor (h ! this) = PermissionsBitField"
    and "bitfield (h ! this) = VBigInt (2 ^ n)"
    and "map_of P ''Administrator'' = Some (2 ^ n)"
    and "distinct (map fst P)"
    and "\<forall>k \<in> fst ` set P. isNaN k"
    and "\<forall>(k, v) \<in> set P. k \<noteq> ''Administrator'' \<longrightarrow> v \<noteq> 0 \<and> v \<noteq> 2 ^ n"
  shows "has P h this f [] = Inr True \<and>
         missing P h this bits [] = Inr (h, []) \<and>
         toArray P h this [] = Inr [''Administrator'']"
proof -
  have a: "(0::int) \<le> 2 ^ n" by simp
  have hs: "has P h this x [] = Inr True" for x
    using has_Permissions [OF assms(2,3,4) a] by simp
  have ms: "missing P h this bits [] = Inr (h, [])"
    using assms(2,4) hs by (simp add: missing_def Permissions_missing_def get_property_def)
  have "(''Administrator'', 2 ^ n) \<in> set P"
    using assms(4) by (rule map_of_SomeD)
  moreover have "\<forall>(k, v) \<in> set P. k \<noteq> ''Administrator'' \<longrightarrow> \<not> (2 ^ n AND v = v)"
    using assms(7) by (auto simp: and_pow2_iff)
  ultimately have "map fst (filter (\<lambda>(k, v). 2 ^ n AND v = v) P) = [''Administrator'']"
    using filter_single [OF assms(5), of "''Administrator''" "2 ^ n" "\<lambda>v. 2 ^ n AND v = v"]
    by simp
  then have "toArray P h this [] = Inr [''Administrator'']"
    using toArray_Permissions [OF assms(2,3,5,6)] by simp
  with hs ms show ?thesis by simp
qed

theorem administrator_asymmetry_witness:
  "has scenario_Flags [mk PermissionsBitField (VBigInt 8)] 0 (JString ''SendMessages'') [] = Inr True \<and>
   missing scenario_Flags [mk PermissionsBitField (VBigInt 8)] 0
     (JArray [JString ''ViewChannel'', JString ''SendMessages'']) [] =
     Inr ([mk PermissionsBitField (VBigInt 8)], []) \<and>
   toArray scenario_Flags [mk PermissionsBitField (VBigInt 8)] 0 [] = Inr [''Administrator'']"
proof -
  let ?h = "[mk PermissionsBitField (VBigInt 8)]"
  have n: "isNaN ''ViewChannel''" "isNaN ''SendMessages''" "isNaN ''Administrator''"
    by (simp_all add: isNaN_def StringToNumber_def trim_def is_ws_def nondecimal_literal_def
        strip_sign_def unsigned_decimal_def is_digit_def)
  have 1: "0 < length ?h" by simp
  have 2: "constructor (?h ! 0) = PermissionsBitField" by (simp add: mk_def)
  have 3: "bitfield (?h ! 0) = VBigInt (2 ^ 3)" by (simp add: mk_def)
  have 4: "map_of scenario_Flags ''Administrator'' = Some (2 ^ 3)"
    by (simp add: scenario_Flags_def)
  have 5: "distinct (map fst scenario_Flags)" by (simp add: scenario_Flags_def)
  have 6: "\<forall>k \<in> fst ` set scenario_Flags. isNaN k"
    using n by (simp add: scenario_Flags_def)
  have 7: "\<forall>(k, v) \<in> set scenario_Flags. k \<noteq> ''Administrator'' \<longrightarrow> v \<noteq> 0 \<and> v \<noteq> 2 ^ 3"
    by (simp add: scenario_Flags_def)
  show ?thesis
    using administrator_asymmetry [OF 1 2 3 4 5 6 7] by simp
qed

section \<open>freeze and add\<close>

lemma or_and_self: "(b OR v) AND v = v" for b v :: int
  by (auto simp: bit_eq_iff bit_and_iff bit_or_iff)

lemma has_flag_Permissions:
  assumes "constructor (h ! this) = PermissionsBitField" "bitfield (h ! this) = VBigInt b"
    and "map_of P ''Administrator'' = Some a" "0 \<le> a"
    and "isNaN k" "map_of P k = Some v"
  shows "has P h this (JString k) [] = Inr (b AND a = a \<or> b AND v = v)"
  using has_Permissions [OF assms(1-4), of "JString k"] assms
  by (simp add: BitField_has_big resolve_name)

lemma add_frozen_flag:
  assumes "this < length h" "constructor (h ! this) = PermissionsBitField"
    "bitfield (h ! this) = VBigInt b" "frozen (h ! this)" "0 \<le> b"
    and "isNaN k" "map_of P k = Some v" "0 \<le> v"
  shows "add P h this [JString k] =
         Inr (h @ [\<lparr>constructor = PermissionsBitField, bitfield = VBigInt (b OR v), frozen = False\<rparr>],
              length h)"
proof -
  have ot: "or_total P h PermissionsBitField (DefaultBit PermissionsBitField) [JString k] = Inr (VBigInt v)"
    using assms(6,7) by (simp add: resolve_name DefaultBit_def)
  have "0 \<le> b OR v" using assms(5,8) by simp
  then have "new P h PermissionsBitField (Prim (VBigInt (b OR v))) =
      Inr (h @ [\<lparr>constructor = PermissionsBitField, bitfield = VBigInt (b OR v), frozen = False\<rparr>],
           length h)"
    by (simp add: new_def resolve_BigInt)
  then show ?thesis
    using assms(2,3,4) by (simp add: add_def ot del: or_total.simps)
qed

text \<open>
  C4.  \<open>freeze()\<close> marks the receiver in place and returns the receiver itself: no
  instance is allocated and its bitfield stays.  Let \<open>B\<close> be a permission instance with
  a bigint bitfield that is not below zero, and \<open>f\<close> the name of a flag whose value is
  not below zero (the flags hold \<open>Administrator\<close>, as \<open>has\<close> reads it).  After
  \<open>B.freeze()\<close>, \<open>C = B.add(f)\<close> is a newly allocated instance, different from \<open>B\<close>; \<open>B\<close>
  is unchanged, so \<open>B.has(f)\<close> is what it was before; and \<open>C.has(f)\<close> is \<open>true\<close>.
\<close>

theorem freeze_add_copies:
  assumes "this < length h"
    and "bitfield (h ! this) = VBigInt b" "0 \<le> b"
    and "isNaN k" "map_of (Flags P (constructor (h ! this))) k = Some v" "0 \<le> v"
    and "map_of P ''Administrator'' = Some a" "0 \<le> a"
  shows "snd (freeze h this) = this \<and>
         length (fst (freeze h this)) = length h \<and>
         frozen (fst (freeze h this) ! this) \<and>
         bitfield (fst (freeze h this) ! this) = bitfield (h ! this) \<and>
         (\<exists>h2 C. add P (fst (freeze h this)) this [JString k] = Inr (h2, C) \<and>
            C \<noteq> this \<and> C = length h \<and> length h2 = Suc (length h) \<and>
            h2 ! this = fst (freeze h this) ! this \<and>
            has P h2 this (JString k) [] = has P h this (JString k) [] \<and>
            bitfield (h2 ! C) = VBigInt (b OR v) \<and>
            has P h2 C (JString k) [] = Inr True)"
proof -
  have c: "constructor (h ! this) = PermissionsBitField"
    using assms(5) flag_of_Permissions by blast
  then have m: "map_of P k = Some v" using assms(5) by (simp add: Flags_def)
  define h1 where "h1 = h[this := (h ! this)\<lparr>frozen := True\<rparr>]"
  define h2 where "h2 = h1 @ [\<lparr>constructor = PermissionsBitField, bitfield = VBigInt (b OR v),
      frozen = False\<rparr>]"
  have f: "freeze h this = (h1, this)" by (simp add: freeze_def h1_def)
  have l: "length h1 = length h" by (simp add: h1_def)
  have 1: "constructor (h1 ! this) = PermissionsBitField" "bitfield (h1 ! this) = VBigInt b"
    "frozen (h1 ! this)"
    using assms(1,2) c by (simp_all add: h1_def)
  have a: "add P h1 this [JString k] = Inr (h2, length h)"
    using add_frozen_flag [OF _ 1(1,2,3) assms(3,4) m assms(6)] assms(1) l
    by (simp add: h2_def)
  have 2: "h2 ! this = h1 ! this" using assms(1) l by (simp add: h2_def nth_append)
  have l2: "length h2 = Suc (length h)" using l by (simp add: h2_def)
  have 3: "constructor (h2 ! length h) = PermissionsBitField"
    "bitfield (h2 ! length h) = VBigInt (b OR v)"
    using l by (simp_all add: h2_def nth_append)
  have "has P h2 this (JString k) [] = Inr (b AND a = a \<or> b AND v = v)"
    using has_flag_Permissions [OF _ _ assms(7,8,4) m, of h2 this b] 1 2 by simp
  moreover have "has P h this (JString k) [] = Inr (b AND a = a \<or> b AND v = v)"
    using has_flag_Permissions [OF c assms(2,7,8,4) m] .
  moreover have "has P h2 (length h) (JString k) [] = Inr True"
    using has_flag_Permissions [OF 3 assms(7,8,4) m] by (simp add: or_and_self)
  ultimately show ?thesis
    using f l l2 1 2 3 a assms(1,2) by simp
qed

theorem freeze_add_copies_witness:
  "(\<exists>h2 C. add scenario_Flags (fst (freeze [mk PermissionsBitField (VBigInt 1024)] 0)) 0
       [JString ''SendMessages''] = Inr (h2, C) \<and>
     C \<noteq> 0 \<and>
     h2 ! 0 = fst (freeze [mk PermissionsBitField (VBigInt 1024)] 0) ! 0 \<and>
     has scenario_Flags h2 0 (JString ''SendMessages'') [] =
       has scenario_Flags [mk PermissionsBitField (VBigInt 1024)] 0 (JString ''SendMessages'') [] \<and>
     bitfield (h2 ! C) = VBigInt 3072 \<and>
     has scenario_Flags h2 C (JString ''SendMessages'') [] = Inr True) \<and>
   snd (freeze [mk PermissionsBitField (VBigInt 1024)] 0) = 0 \<and>
   frozen (fst (freeze [mk PermissionsBitField (VBigInt 1024)] 0) ! 0)"
proof -
  let ?h = "[mk PermissionsBitField (VBigInt 1024)]"
  have 1: "0 < length ?h" by simp
  have 2: "bitfield (?h ! 0) = VBigInt 1024" by (simp add: mk_def)
  have 3: "map_of (Flags scenario_Flags (constructor (?h ! 0))) ''SendMessages'' = Some 2048"
    by (simp add: mk_def Flags_def scenario_Flags_def)
  have 4: "map_of scenario_Flags ''Administrator'' = Some 8"
    by (simp add: scenario_Flags_def)
  have 5: "(1024::int) OR 2048 = 3072" by simp
  show ?thesis
    using freeze_add_copies [OF 1 2 _ isNaN_SendMessages 3 _ 4] 5 by auto
qed

section \<open>Outside the data model\<close>

text \<open>
  An instance constructed from an input that does not resolve holds \<open>undefined\<close>, which
  is no bitfield of the data model: \<open>toJSON()\<close> and \<open>add\<close> raise on it.  A negative
  number bitfield, as \<open>new BitField("-5")\<close> gives, is returned by \<open>toJSON()\<close> and does
  not resolve again.
\<close>

lemma undefined_bitfield:
  "new scenario_Flags [] PermissionsBitField (JString ''bogus'')
     = Inr ([mk PermissionsBitField VUndefined], 0) \<and>
   toJSON [mk PermissionsBitField VUndefined] 0 = Inl TypeError \<and>
   add scenario_Flags [mk PermissionsBitField VUndefined] 0 [JString ''SendMessages'']
     = Inl TypeError"
proof -
  have "resolve scenario_Flags h PermissionsBitField (JString ''SendMessages'') = Inr (VBigInt 2048)"
    for h
    by (simp add: resolve_name isNaN_SendMessages scenario_Flags_def)
  then show ?thesis
    by (simp add: new_def resolve_bogus_Permissions mk_def toJSON_def add_def DefaultBit_def
        js_bitor_def ToNumeric_def)
qed

lemma negative_number_bitfield:
  "toJSON [mk BitField (VNumber (Finite (- 5)))] 0 = Inr (Prim (VNumber (Finite (- 5)))) \<and>
   new P [mk BitField (VNumber (Finite (- 5)))] BitField (Prim (VNumber (Finite (- 5))))
     = Inr ([mk BitField (VNumber (Finite (- 5))), mk BitField VUndefined], 1)"
  by (simp add: toJSON_def mk_def new_def resolve_Number jsnum_ge_def is_finite_def mv_def)

end
